theory Spec2Isabelle
  imports Main
begin

section \<open>Strings and Go errors\<close>

text \<open>
  Go strings are byte sequences; they are modelled as \<^typ>\<open>string\<close>. The characters the
  code tests for (space, brackets, colon, comma, star, digits, CR, LF) are all ASCII, so a
  byte-wise reading and Go's rune-wise reading of a string cut it at the same places.
\<close>

definition CR :: char where
  "CR = CHR 0x0D"

definition LF :: char where
  "LF = CHR 0x0A"

text \<open>\<^verbatim>\<open>const lineEnding string = "\r\n"\<close> (conn.go).\<close>

definition lineEnding :: string where
  "lineEnding = [CR, LF]"

text \<open>\<^verbatim>\<open>strings.HasSuffix(s, suffix)\<close>.\<close>

definition HasSuffix :: "string \<Rightarrow> string \<Rightarrow> bool" where
  "HasSuffix s suf \<longleftrightarrow> length suf \<le> length s \<and> drop (length s - length suf) s = suf"

text \<open>
  Go error values. The two parser errors carry the offending input (the tests compare
  them with \<^verbatim>\<open>!=\<close>, so they are plain values); \<open>errorsNew\<close> is \<^verbatim>\<open>errors.New(msg)\<close>.
\<close>

datatype error =
    errInvalidRangeString string
  | errInvalidSequenceSetString string
  | errorsNew string

section \<open>Sequence numbers, ranges and sets (package types)\<close>

text \<open>
  The tests (sequence\_numbers\_test.go) build a \<open>SequenceNumber\<close> by converting a string
  literal and compare \<open>SequenceRange\<close> fields with string literals: a sequence number
  is a string, a range is a struct of two of them.
\<close>

type_synonym SequenceNumber = string

record SequenceRange =
  Min :: SequenceNumber
  Max :: SequenceNumber

text \<open>\<^verbatim>\<open>1*DIGIT\<close> of the grammar: a non-empty string of ASCII digits.\<close>

definition isDigit :: "char \<Rightarrow> bool" where
  "isDigit c \<longleftrightarrow> 48 \<le> (of_char c :: nat) \<and> (of_char c :: nat) \<le> 57"

definition isDecimal :: "string \<Rightarrow> bool" where
  "isDecimal s \<longleftrightarrow> s \<noteq> [] \<and> list_all isDigit s"

definition digitVal :: "char \<Rightarrow> nat" where
  "digitVal c = of_char c - 48"

text \<open>
  Modelled from the spec: \<open>atoi\<close>, the conversion the spec names in
  ``\<open>parse_number(d).value() == atoi(d)\<close>''; the file of package types that defines
  the sequence-number type and its methods is missing. It reads the digits left to right,
  as Go's \<^verbatim>\<open>strconv\<close> does; the spec gives no integer width, so the result is unbounded.
\<close>

definition atoi :: "string \<Rightarrow> nat" where
  "atoi s = foldl (\<lambda>n c. 10 * n + digitVal c) 0 s"

text \<open>
  Modelled from the spec: the methods \<open>Last()\<close>, \<open>Nil()\<close> and \<open>Value()\<close> of
  \<open>SequenceNumber\<close> (missing, only their test is there). Spec, section 3: ``Operations:
  \<open>is_last()\<close>, \<open>is_nil()\<close>, \<open>value()\<close> \<rightarrow> integer or error (error when last or nil).
  Rendered as its decimal form, \<open>*\<close>, or the empty string.''
\<close>

datatype valueError = ValueOfLast | ValueOfNil | ValueNotDecimal

definition Last :: "SequenceNumber \<Rightarrow> bool" where
  "Last s \<longleftrightarrow> s = ''*''"

definition Nil_seq :: "SequenceNumber \<Rightarrow> bool" where
  "Nil_seq s \<longleftrightarrow> s = ''''"

definition Value :: "SequenceNumber \<Rightarrow> valueError + nat" where
  "Value s =
     (if Last s then Inl ValueOfLast
      else if Nil_seq s then Inl ValueOfNil
      else if isDecimal s then Inr (atoi s)
      else Inl ValueNotDecimal)"

text \<open>
  The integer a decimal string denotes, written as the positional sum: the digit at index
  \<open>i\<close> of a string of length \<open>n\<close> weighs \<open>10 ^ (n - 1 - i)\<close>. It is the yardstick for
  \<open>Value\<close>, and is not used by the model.
\<close>

definition denotes :: "string \<Rightarrow> nat" where
  "denotes s = (\<Sum>i<length s. digitVal (s ! i) * 10 ^ (length s - 1 - i))"

text \<open>
  Modelled from the spec: \<open>parse_number\<close> (missing). Spec 4.A: ``Accepts \<open>*\<close> or a
  non-empty decimal string. Empty string yields the nil SequenceNumber; any other input
  is an error.''
\<close>

definition parse_number :: "string \<Rightarrow> SequenceNumber option" where
  "parse_number s = (if s = ''*'' \<or> s = '''' \<or> isDecimal s then Some s else None)"

text \<open>
  Modelled from the spec: \<open>InterpretMessageRange\<close> (missing, only its test is there).
  Spec 4.A: ``Split on the first \<open>:\<close>. With no \<open>:\<close>, the whole string is the min and
  max is absent. With exactly one \<open>:\<close>, both sides are parsed as numbers; if both are
  numeric and \<open>min > max\<close>, swap. Special case: \<open>*:*\<close> yields \<open>{*, absent}\<close>. Any other
  content (e.g. \<open>5*\<close>, \<open>*5*\<close>, alphabetic) is a "invalid range string" error carrying
  the offending input.'' Spec 9: ``if \<open>min\<close> is \<open>*\<close> and \<open>max\<close> is numeric, swap so
  \<open>*\<close> ends up in \<open>max\<close>.'' By the grammar \<open>seq-range = seq-number [ ":" seq-number ]\<close>
  a side that is written must be a number or \<open>*\<close>: an empty side is other content.
\<close>

definition canonical :: "SequenceNumber \<Rightarrow> SequenceNumber \<Rightarrow> SequenceRange" where
  "canonical first second =
     (if Last first \<and> Last second then \<lparr>Min = ''*'', Max = ''''\<rparr>
      else if Last first then \<lparr>Min = second, Max = first\<rparr>
      else if Last second then \<lparr>Min = first, Max = second\<rparr>
      else if atoi first > atoi second then \<lparr>Min = second, Max = first\<rparr>
      else \<lparr>Min = first, Max = second\<rparr>)"

definition InterpretMessageRange :: "string \<Rightarrow> error + SequenceRange" where
  "InterpretMessageRange s =
     (let first = takeWhile (\<lambda>c. c \<noteq> CHR '':'') s;
          rest = dropWhile (\<lambda>c. c \<noteq> CHR '':'') s
      in case rest of
           [] \<Rightarrow>
             (case parse_number first of
                None \<Rightarrow> Inl (errInvalidRangeString s)
              | Some n \<Rightarrow>
                  if Nil_seq n then Inl (errInvalidRangeString s)
                  else Inr \<lparr>Min = n, Max = ''''\<rparr>)
         | _ # second \<Rightarrow>
             (case (parse_number first, parse_number second) of
                (Some a, Some b) \<Rightarrow>
                  if Nil_seq a \<or> Nil_seq b then Inl (errInvalidRangeString s)
                  else Inr (canonical a b)
              | _ \<Rightarrow> Inl (errInvalidRangeString s)))"

text \<open>\<^verbatim>\<open>strings.Split(s, sep)\<close> for a one-character separator: \<open>n\<close> separators give
  \<open>n + 1\<close> pieces, empty ones included.\<close>

fun splitOn :: "char \<Rightarrow> string \<Rightarrow> string \<Rightarrow> string list" where
  "splitOn sep cur [] = [cur]"
| "splitOn sep cur (c # cs) =
     (if c = sep then cur # splitOn sep [] cs else splitOn sep (cur @ [c]) cs)"

definition Split :: "string \<Rightarrow> char \<Rightarrow> string list" where
  "Split s sep = splitOn sep [] s"

text \<open>
  Modelled from the spec: \<open>InterpretSequenceSet\<close> (missing, only its test is there).
  Spec 4.A: ``Split on \<open>,\<close>. Each element is parsed as a range; any element failure
  surfaces as an "invalid sequence set string" error carrying the whole input.''
  The loop stops at the first element that fails.
\<close>

fun interpretElements :: "string \<Rightarrow> string list \<Rightarrow> SequenceRange list \<Rightarrow> error + SequenceRange list" where
  "interpretElements whole [] acc = Inr acc"
| "interpretElements whole (e # es) acc =
     (case InterpretMessageRange e of
        Inl _ \<Rightarrow> Inl (errInvalidSequenceSetString whole)
      | Inr r \<Rightarrow> interpretElements whole es (acc @ [r]))"

definition InterpretSequenceSet :: "string \<Rightarrow> error + SequenceRange list" where
  "InterpretSequenceSet s = interpretElements s (Split s (CHR '','')) []"

text \<open>The grammar of spec 4.A, as a recogniser that tries every position of a colon.\<close>

definition seqNumber :: "string \<Rightarrow> bool" where
  "seqNumber s \<longleftrightarrow> s = ''*'' \<or> isDecimal s"

definition seqRange :: "string \<Rightarrow> bool" where
  "seqRange s \<longleftrightarrow>
     seqNumber s \<or>
     list_ex (\<lambda>i. s ! i = CHR '':'' \<and> seqNumber (take i s) \<and> seqNumber (drop (Suc i) s))
       [0..<length s]"

section \<open>Parameter splitting (package util)\<close>

text \<open>
  \<^verbatim>\<open>strings.FieldsFunc(s, f)\<close> of the Go library: one pass over the string, \<open>f\<close>
  called once on every character in order; a character on which \<open>f\<close> is true ends the
  field that is open (if any) and is dropped, and empty fields are never produced. The
  closure that \<open>SplitParams\<close> passes keeps a flag between calls, so \<open>f\<close> takes and
  returns that state.
\<close>

fun FieldsFunc :: "('s \<Rightarrow> char \<Rightarrow> bool \<times> 's) \<Rightarrow> 's \<Rightarrow> string \<Rightarrow> string \<Rightarrow> string list" where
  "FieldsFunc f st cur [] = (if cur = [] then [] else [cur])"
| "FieldsFunc f st cur (r # rs) =
     (case f st r of
        (True, st') \<Rightarrow> (if cur = [] then [] else [cur]) @ FieldsFunc f st' [] rs
      | (False, st') \<Rightarrow> FieldsFunc f st' (cur @ [r]) rs)"

text \<open>The closure of \<open>SplitParams\<close>; its state is the variable \<open>paramsOpen\<close>.\<close>

definition paramsFunc :: "bool \<Rightarrow> char \<Rightarrow> bool \<times> bool" where
  "paramsFunc paramsOpen r =
     (let open1 = (if r = CHR ''['' then True else paramsOpen);
          open2 = (if r = CHR '']'' then False else open1)
      in (if r = CHR '' '' \<and> \<not> open2 then (True, open2) else (False, open2)))"

definition SplitParams :: "string \<Rightarrow> string list" where
  "SplitParams params = FieldsFunc paramsFunc False [] params"

section \<open>Connections (package conn)\<close>

text \<open>
  Of conn.go, everything that acts on the session state or answers the client is
  embedded. \<open>Conn.Close\<close> and \<open>ReadFixedLength\<close> are left out: they work on the bytes
  of the transport below the line scanner and no property here reads them.
\<close>

datatype connState =
    StateNew
  | StateNotAuthenticated
  | StateAuthenticated
  | StateSelected
  | StateLoggedOut

datatype WriteMode = ReadOnly | ReadWrite

text \<open>
  A run-time panic: the two \<^verbatim>\<open>panic(...)\<close> calls of conn.go, and the nil dereference of a
  method call on a nil interface value.
\<close>

datatype fault = Panic string

definition nilDereference :: fault where
  "nilDereference = Panic ''invalid memory address or nil pointer dereference''"

text \<open>
  The transport \<open>Rwc\<close> (an \<^verbatim>\<open>io.ReadWriteCloser\<close>) as the session sees it: the lines the
  scanner will still deliver (after the last one \<open>Scan\<close> reports false), the error the
  scanner keeps when it stops (\<open>None\<close> at a clean end of stream), and the chunks given to
  \<open>Write\<close> so far, one per call.
\<close>

record rwc =
  incoming :: "string list"
  readErr :: "string option"
  written :: "string list"

text \<open>
  The struct \<open>Conn\<close>. \<open>Rwc\<close> may be nil (\<open>Start\<close> tests it). \<open>scanErr\<close> is what
  \<^verbatim>\<open>RwcScanner.Err()\<close> returns. \<open>Transcript\<close> records what is written to the
  transcript writer. \<open>User\<close> and \<open>SelectedMailbox\<close> are interface values of the mail
  store, opaque here apart from being nil or not. The field \<open>Mailstore\<close> is only ever
  stored by the code at hand and is left out.
\<close>

record ('u, 'm) Conn =
  state :: connState
  Rwc :: "rwc option"
  scanErr :: "string option"
  Transcript :: "string list"
  User :: "'u option"
  SelectedMailbox :: "'m option"
  mailboxWritable :: WriteMode

definition NewConn :: "rwc option \<Rightarrow> string list \<Rightarrow> ('u, 'm) Conn" where
  "NewConn netConn transcript =
     \<lparr>state = StateNew, Rwc = netConn, scanErr = None, Transcript = transcript,
      User = None, SelectedMailbox = None, mailboxWritable = ReadOnly\<rparr>"

definition SetReadOnly :: "('u, 'm) Conn \<Rightarrow> ('u, 'm) Conn" where
  "SetReadOnly c = c\<lparr>mailboxWritable := ReadOnly\<rparr>"

definition SetReadWrite :: "('u, 'm) Conn \<Rightarrow> ('u, 'm) Conn" where
  "SetReadWrite c = c\<lparr>mailboxWritable := ReadWrite\<rparr>"

definition SetState :: "connState \<Rightarrow> ('u, 'm) Conn \<Rightarrow> ('u, 'm) Conn" where
  "SetState st c = SetReadOnly (c\<lparr>state := st\<rparr>)"

text \<open>
  \<open>Conn.Write\<close>: the bytes go to the transcript behind \<open>S: \<close>, then to the transport.
  Its callers drop the count and the error it returns, and so does the model.
\<close>

definition Write :: "string \<Rightarrow> ('u, 'm) Conn \<Rightarrow> fault + ('u, 'm) Conn" where
  "Write p c =
     (let c1 = c\<lparr>Transcript := Transcript c @ [''S: '' @ p]\<rparr>
      in case Rwc c1 of
           None \<Rightarrow> Inl nilDereference
         | Some r \<Rightarrow> Inr (c1\<lparr>Rwc := Some (r\<lparr>written := written r @ [p]\<rparr>)\<rparr>))"

text \<open>\<^verbatim>\<open>fmt.Fprintf(c, "%s %s", seq, command)\<close> formats the line and calls \<open>Write\<close> once.\<close>

definition writeResponse :: "string \<Rightarrow> string \<Rightarrow> ('u, 'm) Conn \<Rightarrow> fault + ('u, 'm) Conn" where
  "writeResponse seq command c =
     (let seq1 = (if seq = '''' then ''*'' else seq);
          command1 = (if \<not> HasSuffix command lineEnding then command @ lineEnding else command)
      in Write (seq1 @ '' '' @ command1) c)"

definition sendWelcome :: "('u, 'm) Conn \<Rightarrow> fault + (error option \<times> ('u, 'm) Conn)" where
  "sendWelcome c =
     (if state c \<noteq> StateNew then Inr (Some (errorsNew ''Welcome already sent''), c)
      else case writeResponse '''' ''OK IMAP4rev1 Service Ready'' c of
             Inl f \<Rightarrow> Inl f
           | Inr c1 \<Rightarrow> Inr (None, SetState StateNotAuthenticated c1))"

definition assertAuthenticated :: "string \<Rightarrow> ('u, 'm) Conn \<Rightarrow> fault + (bool \<times> ('u, 'm) Conn)" where
  "assertAuthenticated seq c =
     (if state c \<noteq> StateAuthenticated \<and> state c \<noteq> StateSelected then
        (case writeResponse seq ''BAD not authenticated'' c of
           Inl f \<Rightarrow> Inl f
         | Inr c1 \<Rightarrow> Inr (False, c1))
      else if User c = None then Inl (Panic ''In authenticated state but no user is set'')
      else Inr (True, c))"

definition assertSelected :: "string \<Rightarrow> WriteMode \<Rightarrow> ('u, 'm) Conn \<Rightarrow> fault + (bool \<times> ('u, 'm) Conn)" where
  "assertSelected seq writable c =
     (case assertAuthenticated seq c of
        Inl f \<Rightarrow> Inl f
      | Inr (ok, c1) \<Rightarrow>
          if \<not> ok then Inr (False, c1)
          else if state c1 \<noteq> StateSelected then
            (case writeResponse seq ''BAD not selected'' c1 of
               Inl f \<Rightarrow> Inl f
             | Inr c2 \<Rightarrow> Inr (False, c2))
          else if SelectedMailbox c1 = None then
            Inl (Panic ''In selected state but no selected mailbox is set'')
          else if writable = ReadWrite \<and> mailboxWritable c1 \<noteq> ReadWrite then
            (case writeResponse seq ''NO Selected mailbox is READONLY'' c1 of
               Inl f \<Rightarrow> Inl f
             | Inr c2 \<Rightarrow> Inr (False, c2))
          else Inr (True, c1))"

text \<open>\<open>ReadLine\<close>: the next line of the scanner and whether there was one.\<close>

definition ReadLine :: "('u, 'm) Conn \<Rightarrow> fault + (string \<times> bool \<times> ('u, 'm) Conn)" where
  "ReadLine c =
     (case Rwc c of
        None \<Rightarrow> Inl nilDereference
      | Some r \<Rightarrow>
          (case incoming r of
             [] \<Rightarrow> Inr ('''', False, c\<lparr>scanErr := readErr r\<rparr>)
           | l # ls \<Rightarrow> Inr (l, True, c\<lparr>Rwc := Some (r\<lparr>incoming := ls\<rparr>)\<rparr>)))"

text \<open>
  The registry \<open>commands\<close> is declared in a file that is missing; it is a parameter here.
  An entry pairs \<open>match\<close>, standing for \<^verbatim>\<open>cmd.match.FindStringSubmatch\<close> (the empty list
  when the pattern does not match), with its \<open>handler\<close>, which may change the connection
  in any way, read from it, or panic.
\<close>

record ('u, 'm) command =
  match :: "string \<Rightarrow> string list"
  handler :: "string list \<Rightarrow> ('u, 'm) Conn \<Rightarrow> fault + ('u, 'm) Conn"

fun handleRequest :: "('u, 'm) command list \<Rightarrow> string \<Rightarrow> ('u, 'm) Conn \<Rightarrow> fault + ('u, 'm) Conn" where
  "handleRequest [] req c = writeResponse '''' ''BAD Command not understood'' c"
| "handleRequest (cmd # cmds) req c =
     (let matches = match cmd req
      in if length matches > 0 then handler cmd matches c
         else handleRequest cmds req c)"

text \<open>
  The loop of \<open>Start\<close>. The transport may deliver lines for ever and a handler may read
  from it, so the loop need not end: it is a partial function, \<open>None\<close> when it runs for
  ever. Beside the connection it returns a record of the dispatches, which the source does
  not keep: for every call of \<open>handleRequest\<close>, in order, the state of the connection at
  the call, the line handed over, and the state in which the call left the connection
  (\<open>None\<close> when it panicked). A panic ends the run with the record so far.
\<close>

record dispatch =
  before :: connState
  request :: string
  after :: "connState option"

partial_function (option) Start_loop ::
  "('u, 'm) command list \<Rightarrow> ('u, 'm) Conn \<Rightarrow> dispatch list
     \<Rightarrow> (dispatch list \<times> (fault + ('u, 'm) Conn)) option" where
  "Start_loop cmds c tr =
     (if state c = StateLoggedOut then Some (tr, Inr c)
      else
        case (if state c = StateNew then sendWelcome c else Inr (None, c)) of
          Inl f \<Rightarrow> Some (tr, Inl f)
        | Inr (_, c1) \<Rightarrow>
            (case ReadLine c1 of
               Inl f \<Rightarrow> Some (tr, Inl f)
             | Inr (req, ok, c2) \<Rightarrow>
                 if \<not> ok then Some (tr, Inr (c2\<lparr>state := StateLoggedOut\<rparr>))
                 else
                   let c3 = c2\<lparr>Transcript := Transcript c2 @ [''C: '' @ req @ [LF]]\<rparr>
                   in (case handleRequest cmds req c3 of
                         Inl f \<Rightarrow>
                           Some (tr @ [\<lparr>before = state c3, request = req, after = None\<rparr>], Inl f)
                       | Inr c4 \<Rightarrow>
                           Start_loop cmds
                             (case scanErr c4 of
                                None \<Rightarrow> c4
                              | Some e \<Rightarrow>
                                  c4\<lparr>Transcript := Transcript c4 @ [''Scan error: '' @ e @ [LF]]\<rparr>)
                             (tr @ [\<lparr>before = state c3, request = req,
                                      after = Some (state c4)\<rparr>]))))"

definition Start ::
  "('u, 'm) command list \<Rightarrow> ('u, 'm) Conn
     \<Rightarrow> (dispatch list \<times> (fault + error option \<times> ('u, 'm) Conn)) option" where
  "Start cmds c =
     (if Rwc c = None then Some ([], Inr (Some (errorsNew ''No connection exists''), c))
      else
        case Start_loop cmds (c\<lparr>scanErr := None\<rparr>) [] of
          None \<Rightarrow> None
        | Some (tr, Inl f) \<Rightarrow> Some (tr, Inl f)
        | Some (tr, Inr c') \<Rightarrow> Some (tr, Inr (None, c')))"

text \<open>
  The tag of a line in the spec's words (glossary: ``client-chosen opaque token prefixing
  each command''): the characters before the first space. A tag can be extracted when
  there is at least one. \<open>handleRequest\<close> itself computes no tag.
\<close>

definition lineTag :: "string \<Rightarrow> string" where
  "lineTag req = takeWhile (\<lambda>c. c \<noteq> CHR '' '') req"

text \<open>The number of CRLF pairs in a string.\<close>

fun countCRLF :: "string \<Rightarrow> nat" where
  "countCRLF (a # b # cs) =
     (if a = CR \<and> b = LF then Suc (countCRLF cs) else countCRLF (b # cs))"
| "countCRLF [a] = 0"
| "countCRLF [] = 0"

text \<open>The transport's output, a connection without transport having none.\<close>

definition sent :: "('u, 'm) Conn \<Rightarrow> string list" where
  "sent c = (case Rwc c of None \<Rightarrow> [] | Some r \<Rightarrow> written r)"

section \<open>The server (package imap)\<close>

text \<open>
  The listener and the network behind \<^verbatim>\<open>net.Listen\<close> are outside the repository: the
  network is a state \<open>'w\<close>, and binding and closing are parameters that may change it
  and may fail.
\<close>

text \<open>
  \<open>Serve\<close> (the accept loop, one goroutine per connection), \<open>ListenAndServe\<close> and the
  test helper are left out; \<open>Listen\<close> and \<open>Close\<close> do not depend on them.
\<close>

record ('w, 'l) network =
  net_Listen :: "string \<Rightarrow> string \<Rightarrow> 'w \<Rightarrow> (string + 'l) \<times> 'w"
  listener_Close :: "'l \<Rightarrow> 'w \<Rightarrow> string option \<times> 'w"

record ('l, 's) Server =
  Addr :: string
  listener :: "'l option"
  ServerTranscript :: "string list"
  mailstore :: 's

definition NewServer :: "'s \<Rightarrow> ('l, 's) Server" where
  "NewServer store = \<lparr>Addr = '':143'', listener = None, ServerTranscript = [], mailstore = store\<rparr>"

text \<open>
  \<open>Server.Listen\<close> and \<open>Server.Close\<close> return the Go error (\<open>None\<close> for nil), the server
  and the network; \<open>Listen\<close> also returns what it prints on standard output. An error of
  the network is \<open>errorsNew\<close> of its message.
\<close>

definition Server_Listen ::
  "('w, 'l) network \<Rightarrow> ('l, 's) Server \<Rightarrow> 'w \<Rightarrow> error option \<times> ('l, 's) Server \<times> 'w \<times> string list" where
  "Server_Listen env s w =
     (if listener s \<noteq> None then (Some (errorsNew ''Listener already exists''), s, w, [])
      else
        let s1 = s\<lparr>ServerTranscript := ServerTranscript s @ [''Listening on '' @ Addr s @ [LF]]\<rparr>
        in case net_Listen env ''tcp'' (Addr s1) w of
             (Inl err, w1) \<Rightarrow>
               (Some (errorsNew err), s1, w1, [''Error listening: '' @ err @ [LF]])
           | (Inr ln, w1) \<Rightarrow> (None, s1\<lparr>listener := Some ln\<rparr>, w1, []))"

definition Server_Close ::
  "('w, 'l) network \<Rightarrow> ('l, 's) Server \<Rightarrow> 'w \<Rightarrow> error option \<times> ('l, 's) Server \<times> 'w" where
  "Server_Close env s w =
     (let s1 = s\<lparr>ServerTranscript := ServerTranscript s @ [''Closing server listener'' @ [LF]]\<rparr>
      in case listener s1 of
           None \<Rightarrow> (Some (errorsNew ''Server not started''), s1, w)
         | Some ln \<Rightarrow>
             (case listener_Close env ln w of
                (None, w1) \<Rightarrow> (None, s1\<lparr>listener := None\<rparr>, w1)
              | (Some err, w1) \<Rightarrow> (Some (errorsNew err), s1, w1)))"

section \<open>Vocabulary of the properties\<close>

text \<open>
  The connection after one chunk has gone out: the chunk is on the transport, and in the
  transcript behind \<open>S: \<close>.
\<close>

definition emit :: "string \<Rightarrow> ('u, 'm) Conn \<Rightarrow> ('u, 'm) Conn" where
  "emit line c =
     c\<lparr>Transcript := Transcript c @ [''S: '' @ line],
       Rwc := map_option (\<lambda>r. r\<lparr>written := written r @ [line]\<rparr>) (Rwc c)\<rparr>"

text \<open>
  The line \<open>writeResponse\<close> sends for a tag and a text: the tag, or \<open>*\<close> for the empty
  tag, a space, the text, and a line ending unless the text already ends with one.
\<close>

definition responseLine :: "string \<Rightarrow> string \<Rightarrow> string" where
  "responseLine seq command =
     (if seq = [] then ''*'' else seq) @ '' '' @ command @
     (if HasSuffix command lineEnding then [] else lineEnding)"

text \<open>
  The session invariant 3 of the spec, ``\<open>mailbox_mode = ReadWrite\<close> implies
  \<open>state = Selected\<close>''.
\<close>

definition writeImpliesSelected :: "('u, 'm) Conn \<Rightarrow> bool" where
  "writeImpliesSelected c \<longleftrightarrow> mailboxWritable c = ReadOnly \<or> state c = StateSelected"

text \<open>
  Calls of the three setters, and the sequences of calls that enable write access only
  while the state is Selected.
\<close>

datatype setterCall = CallSetState connState | CallSetReadOnly | CallSetReadWrite

fun call :: "setterCall \<Rightarrow> ('u, 'm) Conn \<Rightarrow> ('u, 'm) Conn" where
  "call (CallSetState st) c = SetState st c"
| "call CallSetReadOnly c = SetReadOnly c"
| "call CallSetReadWrite c = SetReadWrite c"

fun calls :: "setterCall list \<Rightarrow> ('u, 'm) Conn \<Rightarrow> ('u, 'm) Conn" where
  "calls [] c = c"
| "calls (x # xs) c = calls xs (call x c)"

fun writeOnlyWhileSelected :: "setterCall list \<Rightarrow> ('u, 'm) Conn \<Rightarrow> bool" where
  "writeOnlyWhileSelected [] c \<longleftrightarrow> True"
| "writeOnlyWhileSelected (x # xs) c \<longleftrightarrow>
     (x \<noteq> CallSetReadWrite \<or> state c = StateSelected) \<and> writeOnlyWhileSelected xs (call x c)"

text \<open>How many lines the transport still holds; the measure of the loop of \<open>Start\<close>.\<close>

definition pending :: "('u, 'm) Conn \<Rightarrow> nat" where
  "pending c = (case Rwc c of None \<Rightarrow> 0 | Some r \<Rightarrow> length (incoming r))"

text \<open>Handlers that put nothing back on the transport.\<close>

definition handlersConsume :: "('u, 'm) command list \<Rightarrow> bool" where
  "handlersConsume cmds \<longleftrightarrow>
     (\<forall>cmd \<in> set cmds. \<forall>m c c'. handler cmd m c = Inr c' \<longrightarrow> pending c' \<le> pending c)"

text \<open>
  What a run of the loop of \<open>Start\<close> from connection \<open>c\<close> with record \<open>tr\<close> must
  satisfy: the record only grows; nothing is added when \<open>c\<close> is logged out; no dispatch
  is made in state LoggedOut; every dispatch but the last returns, and leaves a state other
  than LoggedOut; a run that returns a connection returns it logged out.
\<close>

definition runOK :: "('u, 'm) Conn \<Rightarrow> dispatch list \<Rightarrow> dispatch list \<times> (fault + ('u, 'm) Conn) \<Rightarrow> bool" where
  "runOK c tr y \<longleftrightarrow>
     (\<exists>new. fst y = tr @ new \<and>
        (state c = StateLoggedOut \<longrightarrow> new = []) \<and>
        (\<forall>d\<in>set new. before d \<noteq> StateLoggedOut) \<and>
        (\<forall>d\<in>set (butlast new). after d \<noteq> None \<and> after d \<noteq> Some StateLoggedOut) \<and>
        (\<forall>c'. snd y = Inr c' \<longrightarrow> state c' = StateLoggedOut))"

section \<open>Example connections, commands and networks\<close>

text \<open>A fresh connection, as \<open>NewConn\<close> makes it, on a transport that holds the given lines.\<close>

definition exampleConn :: "string list \<Rightarrow> (unit, unit) Conn" where
  "exampleConn ls = NewConn (Some \<lparr>incoming = ls, readErr = None, written = []\<rparr>) []"

text \<open>The same connection with a user logged in and a mailbox selected for writing.\<close>

definition selectedConn :: "string list \<Rightarrow> (unit, unit) Conn" where
  "selectedConn ls =
     SetReadWrite ((SetState StateSelected (exampleConn ls))\<lparr>User := Some (), SelectedMailbox := Some ()\<rparr>)"

text \<open>
  Modelled from the spec: two entries of the registry \<open>commands\<close>, whose file is missing.
  Spec 4.C: a pattern is anchored at the start of the line and captures the tag;
  spec 4.F: NOOP answers \<open><tag> OK NOOP completed\<close>; LOGOUT emits \<open>* BYE\<close>, then
  \<open><tag> OK LOGOUT completed\<close>, and goes to LoggedOut. The patterns are cut down to a
  tag without spaces followed by the command word.
\<close>

definition matchWord :: "string \<Rightarrow> string \<Rightarrow> string list" where
  "matchWord word req =
     (let tag = lineTag req
      in if tag \<noteq> [] \<and> req = tag @ '' '' @ word then [req, tag] else [])"

definition cmdNoop :: "(unit, unit) command" where
  "cmdNoop = \<lparr>match = matchWord ''NOOP'',
              handler = (\<lambda>args c. writeResponse (args ! 1) ''OK NOOP completed'' c)\<rparr>"

definition cmdLogout :: "(unit, unit) command" where
  "cmdLogout = \<lparr>match = matchWord ''LOGOUT'',
                handler = (\<lambda>args c.
                  case writeResponse '''' ''BYE'' c of
                    Inl f \<Rightarrow> Inl f
                  | Inr c1 \<Rightarrow>
                      (case writeResponse (args ! 1) ''OK LOGOUT completed'' c1 of
                         Inl f \<Rightarrow> Inl f
                       | Inr c2 \<Rightarrow> Inr (SetState StateLoggedOut c2)))\<rparr>"

text \<open>
  A network whose state is the list of bound addresses and whose listeners are the
  addresses: binding a bound address fails, closing unbinds.
\<close>

definition exampleNet :: "(string list, string) network" where
  "exampleNet =
     \<lparr>net_Listen = (\<lambda>proto addr w.
        if addr \<in> set w then (Inl ''address already in use'', w) else (Inr addr, w @ [addr])),
      listener_Close = (\<lambda>ln w.
        if ln \<in> set w then (None, removeAll ln w) else (Some ''use of closed network connection'', w))\<rparr>"

text \<open>Three lines from a client, and the dispatches \<open>Start\<close> makes of them.\<close>

definition exampleLines :: "string list" where
  "exampleLines = [''a1 NOOP'', ''a2 LOGOUT'', ''a3 NOOP'']"

definition exampleTrace :: "dispatch list" where
  "exampleTrace =
     [\<lparr>before = StateNotAuthenticated, request = ''a1 NOOP'', after = Some StateNotAuthenticated\<rparr>,
      \<lparr>before = StateNotAuthenticated, request = ''a2 LOGOUT'', after = Some StateLoggedOut\<rparr>]"

text \<open>A fresh server after a successful \<open>Listen\<close> on the example network.\<close>

definition listening :: "(string, unit) Server \<times> string list" where
  "listening =
     (case Server_Listen exampleNet (NewServer ()) [] of (err, s, w, out) \<Rightarrow> (s, w))"

section \<open>Properties of the sequence-number parsers\<close>

lemma isDecimal_not_star: "isDecimal d \<Longrightarrow> d \<noteq> ''*''"
  by (auto simp: isDecimal_def isDigit_def)

lemma isDecimal_not_empty: "isDecimal d \<Longrightarrow> d \<noteq> ''''"
  by (simp add: isDecimal_def)

lemma isDecimal_no_colon: "isDecimal d \<Longrightarrow> CHR '':'' \<notin> set d"
  by (auto simp: isDecimal_def isDigit_def list_all_iff)

lemma seqNumber_no_colon: "seqNumber a \<Longrightarrow> CHR '':'' \<notin> set a"
  by (auto simp: seqNumber_def dest: isDecimal_no_colon)

lemma seqNumber_parse: "seqNumber a \<Longrightarrow> parse_number a = Some a \<and> \<not> Nil_seq a"
  by (auto simp: seqNumber_def parse_number_def Nil_seq_def dest: isDecimal_not_empty)

lemma parse_seqNumber: "parse_number a = Some n \<Longrightarrow> \<not> Nil_seq n \<Longrightarrow> n = a \<and> seqNumber a"
  by (auto simp: seqNumber_def parse_number_def Nil_seq_def split: if_splits)

lemma split_no_colon:
  assumes "CHR '':'' \<notin> set a"
  shows "takeWhile (\<lambda>c. c \<noteq> CHR '':'') (a @ CHR '':'' # b) = a"
    and "dropWhile (\<lambda>c. c \<noteq> CHR '':'') (a @ CHR '':'' # b) = CHR '':'' # b"
  using assms by (induction a) auto

lemma range_single:
  assumes "CHR '':'' \<notin> set s" and "seqNumber s"
  shows "InterpretMessageRange s = Inr \<lparr>Min = s, Max = ''''\<rparr>"
proof -
  from assms(1) have tw: "takeWhile (\<lambda>c. c \<noteq> CHR '':'') s = s"
    and dw: "dropWhile (\<lambda>c. c \<noteq> CHR '':'') s = []"
    by (induction s) auto
  show ?thesis
    by (simp add: InterpretMessageRange_def tw dw seqNumber_parse [OF assms(2)])
qed

lemma range_pair:
  assumes "seqNumber a" and "seqNumber b"
  shows "InterpretMessageRange (a @ CHR '':'' # b) = Inr (canonical a b)"
  using split_no_colon [OF seqNumber_no_colon [OF assms(1)], of b]
    seqNumber_parse [OF assms(1)] seqNumber_parse [OF assms(2)]
  by (simp add: InterpretMessageRange_def)

lemma range_result:
  "InterpretMessageRange s = Inl (errInvalidRangeString s) \<or>
   (\<exists>r. InterpretMessageRange s = Inr r \<and> seqRange s)"
proof (cases "dropWhile (\<lambda>c. c \<noteq> CHR '':'') s")
  case Nil
  then have whole: "takeWhile (\<lambda>c. c \<noteq> CHR '':'') s = s"
    by (metis takeWhile_dropWhile_id append_Nil2)
  show ?thesis
  proof (cases "parse_number s")
    case None
    show ?thesis by (simp add: InterpretMessageRange_def Nil whole None)
  next
    case (Some n)
    show ?thesis
    proof (cases "Nil_seq n")
      case True
      show ?thesis by (simp add: InterpretMessageRange_def Nil whole Some True)
    next
      case False
      with Some have "seqNumber s" and "n = s" using parse_seqNumber by blast+
      then show ?thesis
        by (simp add: InterpretMessageRange_def seqRange_def Nil whole Some False)
    qed
  qed
next
  case (Cons c second)
  define first where "first = takeWhile (\<lambda>c. c \<noteq> CHR '':'') s"
  have s: "s = first @ c # second"
    using Cons first_def by (metis takeWhile_dropWhile_id)
  have c: "c = CHR '':''"
    using Cons hd_dropWhile [of "\<lambda>c. c \<noteq> CHR '':''" s] by force
  show ?thesis
  proof (cases "\<exists>a b. parse_number first = Some a \<and> parse_number second = Some b \<and> \<not> Nil_seq a \<and> \<not> Nil_seq b")
    case True
    then obtain a b where ab: "parse_number first = Some a" "parse_number second = Some b"
      "\<not> Nil_seq a" "\<not> Nil_seq b" by blast
    then have sn: "seqNumber first" "seqNumber second"
      using parse_seqNumber by blast+
    have "s ! length first = CHR '':''" "take (length first) s = first"
      "drop (Suc (length first)) s = second" "length first < length s"
      using s c by simp_all
    with sn have "seqRange s"
      unfolding seqRange_def list_ex_iff by (intro disjI2 bexI [of _ "length first"]) simp_all
    moreover have "InterpretMessageRange s = Inr (canonical a b)"
      using ab by (simp add: InterpretMessageRange_def Cons first_def [symmetric])
    ultimately show ?thesis by blast
  next
    case False
    then have "InterpretMessageRange s = Inl (errInvalidRangeString s)"
      by (auto simp: InterpretMessageRange_def Cons first_def [symmetric] split: option.splits)
    then show ?thesis by blast
  qed
qed

lemma canonical_numeric:
  "isDecimal a \<Longrightarrow> isDecimal b \<Longrightarrow>
   canonical a b = (if atoi a > atoi b then \<lparr>Min = b, Max = a\<rparr> else \<lparr>Min = a, Max = b\<rparr>)"
  by (auto simp: canonical_def Last_def dest: isDecimal_not_star)

lemma seqNumber_star: "seqNumber ''*''"
  by (simp add: seqNumber_def)

lemma seqNumber_decimal: "isDecimal n \<Longrightarrow> seqNumber n"
  by (simp add: seqNumber_def)

lemma atoi_snoc: "atoi (s @ [c]) = 10 * atoi s + digitVal c"
  by (simp add: atoi_def)

lemma denotes_snoc: "denotes (s @ [c]) = 10 * denotes s + digitVal c"
proof -
  have "(\<Sum>i<length s. digitVal ((s @ [c]) ! i) * 10 ^ (length s - i))
      = (\<Sum>i<length s. 10 * (digitVal (s ! i) * 10 ^ (length s - 1 - i)))"
  proof (rule sum.cong)
    fix i assume "i \<in> {..<length s}"
    then have i: "i < length s" by simp
    then have "length s - i = Suc (length s - 1 - i)" by arith
    with i show "digitVal ((s @ [c]) ! i) * 10 ^ (length s - i)
        = 10 * (digitVal (s ! i) * 10 ^ (length s - 1 - i))"
      by (simp add: nth_append)
  qed simp
  then show ?thesis
    by (simp add: denotes_def sum_distrib_left)
qed

lemma atoi_denotes: "atoi s = denotes s"
proof (induction s rule: rev_induct)
  case Nil
  show ?case by (simp add: atoi_def denotes_def)
next
  case (snoc c s)
  then show ?case by (simp add: atoi_snoc denotes_snoc)
qed

text \<open>
  Claim C5. \<open>SequenceNumber\<close> is a three-way tagged value: for \<open>*\<close>, \<open>Last\<close> holds,
  \<open>Nil\<close> does not and \<open>Value\<close> is an error; for the empty string, \<open>Nil\<close> holds,
  \<open>Last\<close> does not and \<open>Value\<close> is an error; for every decimal string, neither holds
  and \<open>Value\<close> returns, without error, the integer the string denotes.
\<close>

theorem SequenceNumber_three_way:
  "Last ''*'' \<and> \<not> Nil_seq ''*'' \<and> Value ''*'' = Inl ValueOfLast \<and>
   Nil_seq '''' \<and> \<not> Last '''' \<and> Value '''' = Inl ValueOfNil \<and>
   (\<forall>d. isDecimal d \<longrightarrow> \<not> Last d \<and> \<not> Nil_seq d \<and> Value d = Inr (denotes d))"
proof -
  have "\<not> Last d \<and> \<not> Nil_seq d \<and> Value d = Inr (denotes d)" if "isDecimal d" for d
    using that isDecimal_not_star [OF that] isDecimal_not_empty [OF that]
    by (simp add: Last_def Nil_seq_def Value_def atoi_denotes)
  then have dec: "\<forall>d. isDecimal d \<longrightarrow> \<not> Last d \<and> \<not> Nil_seq d \<and> Value d = Inr (denotes d)"
    by blast
  have star: "Last ''*'' \<and> \<not> Nil_seq ''*'' \<and> Value ''*'' = Inl ValueOfLast"
    by (simp add: Last_def Nil_seq_def Value_def)
  have empty: "Nil_seq '''' \<and> \<not> Last '''' \<and> Value '''' = Inl ValueOfNil"
    by (simp add: Last_def Nil_seq_def Value_def)
  from star empty dec show ?thesis by blast
qed

lemma denotes56: "denotes ''56'' = 56"
  by (simp add: denotes_def digitVal_def lessThan_Suc)

lemma dec56: "isDecimal ''56''"
  by (simp add: isDecimal_def isDigit_def)

theorem SequenceNumber_three_way_witness:
  "isDecimal ''56'' \<and> \<not> Last ''56'' \<and> \<not> Nil_seq ''56'' \<and> Value ''56'' = Inr 56"
  using SequenceNumber_three_way dec56 denotes56 by metis


text \<open>
  Claim C1. \<open>InterpretMessageRange\<close> on well-formed range strings: with no colon the
  whole string is \<open>Min\<close> and \<open>Max\<close> is empty; two decimal sides come out in numeric
  order; \<open>*:*\<close> gives \<open>*\<close> alone; \<open>*:N\<close> and \<open>N:*\<close> both give \<open>N\<close> to \<open>*\<close>;
  every string outside the grammar gives the invalid-range-string error carrying the
  input.
\<close>

theorem InterpretMessageRange_canonical:
  "(\<forall>s. CHR '':'' \<notin> set s \<and> seqNumber s \<longrightarrow>
        InterpretMessageRange s = Inr \<lparr>Min = s, Max = ''''\<rparr>) \<and>
   (\<forall>a b. isDecimal a \<and> isDecimal b \<longrightarrow>
        InterpretMessageRange (a @ '':'' @ b) =
          Inr (if denotes a > denotes b then \<lparr>Min = b, Max = a\<rparr> else \<lparr>Min = a, Max = b\<rparr>)) \<and>
   InterpretMessageRange ''*:*'' = Inr \<lparr>Min = ''*'', Max = ''''\<rparr> \<and>
   (\<forall>n. isDecimal n \<longrightarrow> InterpretMessageRange (''*:'' @ n) = Inr \<lparr>Min = n, Max = ''*''\<rparr>) \<and>
   (\<forall>n. isDecimal n \<longrightarrow> InterpretMessageRange (n @ '':*'') = Inr \<lparr>Min = n, Max = ''*''\<rparr>) \<and>
   (\<forall>s. \<not> seqRange s \<longrightarrow> InterpretMessageRange s = Inl (errInvalidRangeString s))"
proof (intro conjI allI impI)
  fix s assume "CHR '':'' \<notin> set s \<and> seqNumber s"
  then show "InterpretMessageRange s = Inr \<lparr>Min = s, Max = ''''\<rparr>"
    by (simp add: range_single)
next
  fix a b assume ab: "isDecimal a \<and> isDecimal b"
  then have "InterpretMessageRange (a @ CHR '':'' # b) = Inr (canonical a b)"
    by (simp add: range_pair seqNumber_decimal)
  with ab show "InterpretMessageRange (a @ '':'' @ b) =
      Inr (if denotes a > denotes b then \<lparr>Min = b, Max = a\<rparr> else \<lparr>Min = a, Max = b\<rparr>)"
    by (simp add: canonical_numeric atoi_denotes)
next
  have "InterpretMessageRange (''*'' @ CHR '':'' # ''*'') = Inr (canonical ''*'' ''*'')"
    by (rule range_pair) (rule seqNumber_star)+
  then show "InterpretMessageRange ''*:*'' = Inr \<lparr>Min = ''*'', Max = ''''\<rparr>"
    by (simp add: canonical_def Last_def)
next
  fix n assume n: "isDecimal n"
  have "InterpretMessageRange (''*'' @ CHR '':'' # n) = Inr (canonical ''*'' n)"
    by (rule range_pair) (simp_all add: seqNumber_star seqNumber_decimal n)
  with isDecimal_not_star [OF n]
  show "InterpretMessageRange (''*:'' @ n) = Inr \<lparr>Min = n, Max = ''*''\<rparr>"
    by (simp add: canonical_def Last_def)
next
  fix n assume n: "isDecimal n"
  have "InterpretMessageRange (n @ CHR '':'' # ''*'') = Inr (canonical n ''*'')"
    by (rule range_pair) (simp_all add: seqNumber_star seqNumber_decimal n)
  with isDecimal_not_star [OF n]
  show "InterpretMessageRange (n @ '':*'') = Inr \<lparr>Min = n, Max = ''*''\<rparr>"
    by (simp add: canonical_def Last_def)
next
  fix s assume "\<not> seqRange s"
  with range_result [of s]
  show "InterpretMessageRange s = Inl (errInvalidRangeString s)"
    by blast
qed

lemma dec_examples:
  "isDecimal ''95''" "isDecimal ''15''" "isDecimal ''16''" "isDecimal ''53''" "isDecimal ''35''"
  by (simp_all add: isDecimal_def isDigit_def)

lemma denotes_examples: "denotes ''95'' = 95" "denotes ''15'' = 15"
  by (simp_all add: denotes_def digitVal_def lessThan_Suc)

lemma not_seqRange_examples: "\<not> seqRange ''5*''" "\<not> seqRange ''hello''"
  by (simp_all add: seqRange_def seqNumber_def isDecimal_def isDigit_def)

theorem InterpretMessageRange_canonical_witness:
  "InterpretMessageRange ''35'' = Inr \<lparr>Min = ''35'', Max = ''''\<rparr> \<and>
   InterpretMessageRange ''95:15'' = Inr \<lparr>Min = ''15'', Max = ''95''\<rparr> \<and>
   InterpretMessageRange ''*:16'' = Inr \<lparr>Min = ''16'', Max = ''*''\<rparr> \<and>
   InterpretMessageRange ''53:*'' = Inr \<lparr>Min = ''53'', Max = ''*''\<rparr> \<and>
   InterpretMessageRange ''5*'' = Inl (errInvalidRangeString ''5*'') \<and>
   InterpretMessageRange ''hello'' = Inl (errInvalidRangeString ''hello'')"
proof -
  note main = InterpretMessageRange_canonical
  have a: "CHR '':'' \<notin> set ''35'' \<and> seqNumber ''35''"
    by (simp add: seqNumber_def dec_examples)
  have "InterpretMessageRange ''35'' = Inr \<lparr>Min = ''35'', Max = ''''\<rparr>"
    using main a by blast
  moreover have "InterpretMessageRange (''95'' @ '':'' @ ''15'') = Inr \<lparr>Min = ''15'', Max = ''95''\<rparr>"
    using main [THEN conjunct2, THEN conjunct1, rule_format, of "''95''" "''15''"]
    by (simp add: dec_examples denotes_examples)
  moreover have "InterpretMessageRange (''*:'' @ ''16'') = Inr \<lparr>Min = ''16'', Max = ''*''\<rparr>"
    using main dec_examples by blast
  moreover have "InterpretMessageRange (''53'' @ '':*'') = Inr \<lparr>Min = ''53'', Max = ''*''\<rparr>"
    using main dec_examples by blast
  moreover have "InterpretMessageRange ''5*'' = Inl (errInvalidRangeString ''5*'')"
    using main not_seqRange_examples by blast
  moreover have "InterpretMessageRange ''hello'' = Inl (errInvalidRangeString ''hello'')"
    using main not_seqRange_examples by blast
  ultimately show ?thesis by simp
qed

text \<open>The model agrees with every case of \<open>TestFindMessageRange\<close>.\<close>

lemma TestFindMessageRange:
  "InterpretMessageRange ''15:95'' = Inr \<lparr>Min = ''15'', Max = ''95''\<rparr>"
  "InterpretMessageRange ''95:15'' = Inr \<lparr>Min = ''15'', Max = ''95''\<rparr>"
  "InterpretMessageRange ''*:16'' = Inr \<lparr>Min = ''16'', Max = ''*''\<rparr>"
  "InterpretMessageRange ''*:*'' = Inr \<lparr>Min = ''*'', Max = ''''\<rparr>"
  "InterpretMessageRange ''12:12'' = Inr \<lparr>Min = ''12'', Max = ''12''\<rparr>"
  "InterpretMessageRange ''53:*'' = Inr \<lparr>Min = ''53'', Max = ''*''\<rparr>"
  "InterpretMessageRange ''35'' = Inr \<lparr>Min = ''35'', Max = ''''\<rparr>"
  "InterpretMessageRange ''*'' = Inr \<lparr>Min = ''*'', Max = ''''\<rparr>"
  "InterpretMessageRange ''5*'' = Inl (errInvalidRangeString ''5*'')"
  "InterpretMessageRange ''*5*'' = Inl (errInvalidRangeString ''*5*'')"
  "InterpretMessageRange ''hello'' = Inl (errInvalidRangeString ''hello'')"
  by code_simp+

lemma interpretElements_all:
  "interpretElements whole es acc =
     (if \<forall>e\<in>set es. \<not> isl (InterpretMessageRange e)
      then Inr (acc @ map (\<lambda>e. projr (InterpretMessageRange e)) es)
      else Inl (errInvalidSequenceSetString whole))"
proof (induction es arbitrary: acc)
  case Nil
  show ?case by simp
next
  case (Cons e es)
  show ?case
  proof (cases "InterpretMessageRange e")
    case (Inl err)
    then show ?thesis by auto
  next
    case (Inr r)
    then show ?thesis by (simp add: Cons.IH)
  qed
qed

text \<open>
  Claim C4. \<open>InterpretSequenceSet\<close> splits on commas and parses every element as a
  range, in input order; \<open>1,3,8:14,18:*\<close> gives the four ranges 1, 3, 8 to 14 and 18 to
  \<open>*\<close>; when an element fails, as the element \<open>:8\<close> of \<open>1,3,:8\<close> or an empty one, the
  result is the invalid-sequence-set-string error carrying the whole input.
\<close>

theorem InterpretSequenceSet_elements:
  "(\<forall>s. (\<forall>e\<in>set (Split s (CHR '','')). \<not> isl (InterpretMessageRange e)) \<longrightarrow>
        InterpretSequenceSet s =
          Inr (map (\<lambda>e. projr (InterpretMessageRange e)) (Split s (CHR '','')))) \<and>
   (\<forall>s. (\<exists>e\<in>set (Split s (CHR '','')). isl (InterpretMessageRange e)) \<longrightarrow>
        InterpretSequenceSet s = Inl (errInvalidSequenceSetString s)) \<and>
   InterpretSequenceSet ''1,3,8:14,18:*'' =
     Inr [\<lparr>Min = ''1'', Max = ''''\<rparr>, \<lparr>Min = ''3'', Max = ''''\<rparr>,
          \<lparr>Min = ''8'', Max = ''14''\<rparr>, \<lparr>Min = ''18'', Max = ''*''\<rparr>] \<and>
   Split ''1,3,:8'' (CHR '','') = [''1'', ''3'', '':8''] \<and>
   InterpretMessageRange '':8'' = Inl (errInvalidRangeString '':8'') \<and>
   InterpretMessageRange '''' = Inl (errInvalidRangeString '''') \<and>
   InterpretSequenceSet ''1,3,:8'' = Inl (errInvalidSequenceSetString ''1,3,:8'')"
proof (intro conjI allI impI)
  fix s assume "\<forall>e\<in>set (Split s (CHR '','')). \<not> isl (InterpretMessageRange e)"
  then show "InterpretSequenceSet s =
      Inr (map (\<lambda>e. projr (InterpretMessageRange e)) (Split s (CHR '','')))"
    by (simp add: InterpretSequenceSet_def interpretElements_all)
next
  fix s assume "\<exists>e\<in>set (Split s (CHR '','')). isl (InterpretMessageRange e)"
  then have "\<not> (\<forall>e\<in>set (Split s (CHR '','')). \<not> isl (InterpretMessageRange e))"
    by blast
  then show "InterpretSequenceSet s = Inl (errInvalidSequenceSetString s)"
    by (simp only: InterpretSequenceSet_def interpretElements_all if_False)
qed code_simp+


lemma TestSequenceSet_elements:
  "\<forall>e\<in>set (Split ''1,3,4:14'' (CHR '','')). \<not> isl (InterpretMessageRange e)"
  "\<exists>e\<in>set (Split ''1,3,:8:14,18:*'' (CHR '','')). isl (InterpretMessageRange e)"
  by code_simp+

lemma TestSequenceSet_ranges:
  "map (\<lambda>e. projr (InterpretMessageRange e)) (Split ''1,3,4:14'' (CHR '','')) =
     [\<lparr>Min = ''1'', Max = ''''\<rparr>, \<lparr>Min = ''3'', Max = ''''\<rparr>, \<lparr>Min = ''4'', Max = ''14''\<rparr>]"
  by code_simp

theorem InterpretSequenceSet_elements_witness:
  "InterpretSequenceSet ''1,3,4:14'' =
     Inr [\<lparr>Min = ''1'', Max = ''''\<rparr>, \<lparr>Min = ''3'', Max = ''''\<rparr>, \<lparr>Min = ''4'', Max = ''14''\<rparr>] \<and>
   InterpretSequenceSet ''1,3,:8:14,18:*'' = Inl (errInvalidSequenceSetString ''1,3,:8:14,18:*'')"
proof -
  note main = InterpretSequenceSet_elements
  have "InterpretSequenceSet ''1,3,4:14'' =
      Inr (map (\<lambda>e. projr (InterpretMessageRange e)) (Split ''1,3,4:14'' (CHR '','')))"
    using main TestSequenceSet_elements(1) by blast
  moreover have "InterpretSequenceSet ''1,3,:8:14,18:*'' =
      Inl (errInvalidSequenceSetString ''1,3,:8:14,18:*'')"
    using main TestSequenceSet_elements(2) by blast
  ultimately show ?thesis by (simp only: TestSequenceSet_ranges)
qed

section \<open>Properties of \<open>SplitParams\<close>\<close>

lemma paramsFunc_simps:
  "paramsFunc st (CHR ''['') = (False, True)"
  "paramsFunc st (CHR '']'') = (False, False)"
  "paramsFunc False (CHR '' '') = (True, False)"
  "paramsFunc True (CHR '' '') = (False, True)"
  "r \<noteq> CHR '' '' \<Longrightarrow> fst (paramsFunc st r) = False"
  "r \<noteq> CHR ''['' \<Longrightarrow> r \<noteq> CHR '']'' \<Longrightarrow> snd (paramsFunc st r) = st"
  "r \<noteq> CHR '']'' \<Longrightarrow> paramsFunc True r = (False, True)"
  by (simp_all add: paramsFunc_def Let_def)


lemma FieldsFunc_closed_word:
  "CHR '' '' \<notin> set xs \<Longrightarrow> CHR ''['' \<notin> set xs \<Longrightarrow>
   FieldsFunc paramsFunc False cur (xs @ ys) = FieldsFunc paramsFunc False (cur @ xs) ys"
proof (induction xs arbitrary: cur)
  case Nil
  show ?case by simp
next
  case (Cons r xs)
  then have "paramsFunc False r = (False, False)"
    by (auto simp: paramsFunc_def Let_def)
  with Cons show ?case by simp
qed



lemma SplitParams_plain:
  "CHR '' '' \<notin> set w \<Longrightarrow> CHR ''['' \<notin> set w \<Longrightarrow> w \<noteq> [] \<Longrightarrow>
   SplitParams (w @ '' '' @ rest) = w # SplitParams rest"
  using FieldsFunc_closed_word [of w "[]" "'' '' @ rest"]
  by (simp add: SplitParams_def paramsFunc_simps)

lemma SplitParams_leading_space: "SplitParams ('' '' @ rest) = SplitParams rest"
  by (simp add: SplitParams_def paramsFunc_simps)




section \<open>Properties of the response writer\<close>

lemma HasSuffix_iff: "HasSuffix s suf \<longleftrightarrow> (\<exists>p. s = p @ suf)"
proof
  assume "HasSuffix s suf"
  then have "s = take (length s - length suf) s @ suf"
    by (metis HasSuffix_def append_take_drop_id)
  then show "\<exists>p. s = p @ suf" ..
next
  assume "\<exists>p. s = p @ suf"
  then show "HasSuffix s suf" by (auto simp: HasSuffix_def)
qed

lemma countCRLF_Cons: "a \<noteq> CR \<Longrightarrow> countCRLF (a # xs) = countCRLF xs"
  by (cases xs) auto

lemma countCRLF_append:
  "xs = [] \<or> last xs \<noteq> CR \<or> ys = [] \<or> hd ys \<noteq> LF \<Longrightarrow>
   countCRLF (xs @ ys) = countCRLF xs + countCRLF ys"
proof (induction xs rule: countCRLF.induct)
  case (1 a b cs)
  then show ?case by (cases cs) auto
next
  case (2 a)
  then show ?case by (cases ys) auto
next
  case 3
  show ?case by simp
qed

lemma CR_LF [simp]: "CR \<noteq> LF" "CHR '' '' \<noteq> CR" "CHR '' '' \<noteq> LF" "CHR ''*'' \<noteq> CR"
  by (simp_all add: CR_def LF_def)

lemma Write_emit: "Rwc c \<noteq> None \<Longrightarrow> Write p c = Inr (emit p c)"
  by (auto simp: Write_def emit_def Let_def)

lemma Write_nil: "Rwc c = None \<Longrightarrow> Write p c = Inl nilDereference"
  by (simp add: Write_def Let_def)

lemma writeResponse_Write: "writeResponse seq command c = Write (responseLine seq command) c"
  by (simp add: writeResponse_def responseLine_def Let_def)

lemma responseLine_suffix: "HasSuffix (responseLine seq command) lineEnding"
  unfolding HasSuffix_iff responseLine_def
  by (cases "HasSuffix command lineEnding") (auto simp: HasSuffix_iff)

lemma responseLine_count:
  assumes "countCRLF seq = 0"
    and "countCRLF command = (if HasSuffix command lineEnding then 1 else 0)"
  shows "countCRLF (responseLine seq command) = 1"
proof -
  let ?tail = "if HasSuffix command lineEnding then [] else lineEnding"
  have tail: "countCRLF (command @ ?tail) = 1"
    using assms(2) by (simp add: countCRLF_append lineEnding_def)
  have "countCRLF ('' '' @ command @ ?tail) = 1"
    using tail countCRLF_Cons [of "CHR '' ''" "command @ ?tail"] by simp
  moreover have "countCRLF (if seq = [] then ''*'' else seq) = 0"
    using assms(1) by simp
  moreover have "countCRLF ((if seq = [] then ''*'' else seq) @ ('' '' @ command @ ?tail)) =
      countCRLF (if seq = [] then ''*'' else seq) + countCRLF ('' '' @ command @ ?tail)"
    by (rule countCRLF_append) simp
  ultimately show ?thesis
    unfolding responseLine_def by simp
qed

text \<open>
  Claim C6, as stated, at two texts: a text with a line ending inside goes out as two
  lines, and a text that ends with two line endings goes out with both; the one test of
  \<open>writeResponse\<close> only sees that the text ends with a line ending.
\<close>

theorem writeResponse_two_lines_counterexample:
  "map_sum id sent (writeResponse '''' (''OK'' @ lineEnding @ ''more'' @ lineEnding) (exampleConn [])) =
     Inr [''* OK'' @ lineEnding @ ''more'' @ lineEnding] \<and>
   countCRLF (''* OK'' @ lineEnding @ ''more'' @ lineEnding) = 2 \<and>
   map_sum id sent (writeResponse ''a1'' (''OK'' @ lineEnding @ lineEnding) (exampleConn [])) =
     Inr [''a1 OK'' @ lineEnding @ lineEnding] \<and>
   countCRLF (''a1 OK'' @ lineEnding @ lineEnding) = 2"
  by (simp add: writeResponse_def Write_def Let_def exampleConn_def NewConn_def sent_def
      HasSuffix_def lineEnding_def CR_def LF_def)

text \<open>
  Claim C6, amended. On a connection with a transport, \<open>writeResponse\<close> makes exactly
  one write, of the tag (\<open>*\<close> for the empty tag), a space and the text, with a line ending
  appended if and only if the text does not already end with one; what is written always
  ends with a line ending, and it holds exactly one line ending when the tag holds none
  and the text holds none but a final one.
\<close>

theorem writeResponse_line:
  "Rwc c \<noteq> None \<longrightarrow>
     (let line = (if seq = [] then ''*'' else seq) @ '' '' @ command @
                 (if HasSuffix command lineEnding then [] else lineEnding)
      in writeResponse seq command c = Inr (emit line c) \<and>
         sent (emit line c) = sent c @ [line] \<and>
         HasSuffix line lineEnding \<and>
         (countCRLF seq = 0 \<and>
          countCRLF command = (if HasSuffix command lineEnding then 1 else 0)
            \<longrightarrow> countCRLF line = 1))"
proof
  assume rwc: "Rwc c \<noteq> None"
  have "writeResponse seq command c = Inr (emit (responseLine seq command) c)"
    by (simp add: writeResponse_Write Write_emit rwc)
  moreover have "sent (emit (responseLine seq command) c) = sent c @ [responseLine seq command]"
    using rwc by (auto simp: sent_def emit_def)
  moreover note responseLine_suffix [of seq command] responseLine_count [of seq command]
  ultimately show "let line = (if seq = [] then ''*'' else seq) @ '' '' @ command @
                 (if HasSuffix command lineEnding then [] else lineEnding)
      in writeResponse seq command c = Inr (emit line c) \<and>
         sent (emit line c) = sent c @ [line] \<and>
         HasSuffix line lineEnding \<and>
         (countCRLF seq = 0 \<and>
          countCRLF command = (if HasSuffix command lineEnding then 1 else 0)
            \<longrightarrow> countCRLF line = 1)"
    unfolding Let_def responseLine_def by blast
qed

lemma exampleConn_Rwc: "Rwc (exampleConn ls) \<noteq> None"
  by (simp add: exampleConn_def NewConn_def)

theorem writeResponse_line_witness:
  "writeResponse ''a001'' ''OK LOGIN completed'' (exampleConn []) =
     Inr (emit (''a001 OK LOGIN completed'' @ lineEnding) (exampleConn [])) \<and>
   sent (emit (''a001 OK LOGIN completed'' @ lineEnding) (exampleConn [])) =
     [''a001 OK LOGIN completed'' @ lineEnding] \<and>
   countCRLF (''a001 OK LOGIN completed'' @ lineEnding) = 1"
proof -
  have suf: "\<not> HasSuffix ''OK LOGIN completed'' lineEnding"
    by (simp add: HasSuffix_def lineEnding_def CR_def LF_def)
  have cnt: "countCRLF ''a001'' = 0" "countCRLF ''OK LOGIN completed'' = 0"
    by (simp_all add: CR_def LF_def)
  have snt: "sent (exampleConn []) = []"
    by (simp add: sent_def exampleConn_def NewConn_def)
  show ?thesis
    using writeResponse_line [of "exampleConn []" "''a001''" "''OK LOGIN completed''"]
      exampleConn_Rwc [of "[]"] suf cnt snt
    by (simp add: Let_def)
qed

section \<open>Properties of the dispatcher\<close>

lemma writeResponse_emit:
  "Rwc c \<noteq> None \<Longrightarrow> writeResponse seq command c = Inr (emit (responseLine seq command) c)"
  by (simp add: writeResponse_Write Write_emit)

lemma handleRequest_no_match:
  "\<forall>cmd\<in>set cmds. match cmd req = [] \<Longrightarrow>
   handleRequest cmds req c = writeResponse '''' ''BAD Command not understood'' c"
  by (induction cmds) (simp_all add: Let_def)

lemma BAD_line: "responseLine '''' ''BAD Command not understood'' = ''* BAD Command not understood'' @ lineEnding"
  by (simp add: responseLine_def HasSuffix_def lineEnding_def CR_def LF_def)

lemma no_match_FROB: "match cmdNoop ''a001 FROB'' = []" "match cmdLogout ''a001 FROB'' = []"
  by (simp_all add: cmdNoop_def cmdLogout_def matchWord_def lineTag_def Let_def)

text \<open>
  Claim C2, as stated, at the line \<open>a001 FROB\<close>: no pattern of the registry matches, the
  tag \<open>a001\<close> can be read off the line, and the answer is the untagged one.
\<close>

theorem handleRequest_tagged_counterexample:
  "match cmdNoop ''a001 FROB'' = [] \<and> match cmdLogout ''a001 FROB'' = [] \<and>
   lineTag ''a001 FROB'' = ''a001'' \<and>
   map_sum id sent (handleRequest [cmdNoop, cmdLogout] ''a001 FROB'' (exampleConn [])) =
     Inr [''* BAD Command not understood'' @ lineEnding] \<and>
   map_sum id sent (handleRequest [cmdNoop, cmdLogout] ''a001 FROB'' (exampleConn [])) \<noteq>
     Inr [''a001 BAD Command not understood'' @ lineEnding]"
  by (simp add: no_match_FROB Let_def lineTag_def writeResponse_def Write_def exampleConn_def
      NewConn_def sent_def HasSuffix_def lineEnding_def CR_def LF_def)

text \<open>
  Claim C2, amended. When a line matches no pattern of the registry, \<open>handleRequest\<close>
  answers \<open>* BAD Command not understood\<close>, untagged, whatever the line: it reads no tag
  from it.
\<close>

theorem handleRequest_unknown_untagged:
  "(\<forall>cmd\<in>set cmds. match cmd req = []) \<and> Rwc c \<noteq> None \<longrightarrow>
   handleRequest cmds req c = Inr (emit (''* BAD Command not understood'' @ lineEnding) c)"
  using handleRequest_no_match [of cmds req c]
    writeResponse_emit [of c "''''" "''BAD Command not understood''"]
  by (simp add: BAD_line)

theorem handleRequest_unknown_untagged_witness:
  "handleRequest [cmdNoop, cmdLogout] ''a001 FROB'' (exampleConn []) =
     Inr (emit (''* BAD Command not understood'' @ lineEnding) (exampleConn []))"
  using handleRequest_unknown_untagged [of "[cmdNoop, cmdLogout]" "''a001 FROB''" "exampleConn []"]
    no_match_FROB exampleConn_Rwc [of "[]"]
  by simp

section \<open>Properties of the precondition gates\<close>

lemma assertAuthenticated_cases:
  "Rwc c \<noteq> None \<Longrightarrow>
   assertAuthenticated seq c =
     (if state c \<noteq> StateAuthenticated \<and> state c \<noteq> StateSelected
      then Inr (False, emit (responseLine seq ''BAD not authenticated'') c)
      else if User c = None then Inl (Panic ''In authenticated state but no user is set'')
      else Inr (True, c))"
  by (simp add: assertAuthenticated_def writeResponse_emit)

lemma lines_plain:
  "responseLine seq ''BAD not authenticated'' =
     (if seq = [] then ''*'' else seq) @ '' BAD not authenticated'' @ lineEnding"
  "responseLine seq ''BAD not selected'' =
     (if seq = [] then ''*'' else seq) @ '' BAD not selected'' @ lineEnding"
  "responseLine seq ''NO Selected mailbox is READONLY'' =
     (if seq = [] then ''*'' else seq) @ '' NO Selected mailbox is READONLY'' @ lineEnding"
  by (simp_all add: responseLine_def HasSuffix_def lineEnding_def CR_def LF_def)

text \<open>
  Claim C9, as stated, at two connections outside the session invariants: in state
  Authenticated with no user, and in state Selected with no selected mailbox,
  \<open>assertSelected\<close> neither answers nor returns, it panics.
\<close>

theorem assertSelected_panic_counterexample:
  "assertSelected ''a3'' ReadOnly ((exampleConn [])\<lparr>state := StateAuthenticated\<rparr>) =
     Inl (Panic ''In authenticated state but no user is set'') \<and>
   assertSelected ''a3'' ReadOnly ((exampleConn [])\<lparr>state := StateSelected, User := Some ()\<rparr>) =
     Inl (Panic ''In selected state but no selected mailbox is set'')"
  by (simp add: assertSelected_def assertAuthenticated_def exampleConn_def NewConn_def)

text \<open>
  Claim C9, amended. On a connection with a transport, \<open>assertSelected\<close> checks in this
  order: a state that is neither Authenticated nor Selected gives \<open>BAD not authenticated\<close>
  and false; then a missing user panics; then a state other than Selected gives
  \<open>BAD not selected\<close> and false; then a missing selected mailbox panics; then a request
  for write access to a read-only mailbox gives \<open>NO Selected mailbox is READONLY\<close> and
  false; otherwise it returns true and sends nothing. Every answer is one write, tagged
  with the tag.
\<close>

theorem assertSelected_order:
  "Rwc c \<noteq> None \<longrightarrow>
   assertSelected seq writable c =
     (let tag = (if seq = [] then ''*'' else seq)
      in if state c \<noteq> StateAuthenticated \<and> state c \<noteq> StateSelected
         then Inr (False, emit (tag @ '' BAD not authenticated'' @ lineEnding) c)
         else if User c = None
         then Inl (Panic ''In authenticated state but no user is set'')
         else if state c \<noteq> StateSelected
         then Inr (False, emit (tag @ '' BAD not selected'' @ lineEnding) c)
         else if SelectedMailbox c = None
         then Inl (Panic ''In selected state but no selected mailbox is set'')
         else if writable = ReadWrite \<and> mailboxWritable c = ReadOnly
         then Inr (False, emit (tag @ '' NO Selected mailbox is READONLY'' @ lineEnding) c)
         else Inr (True, c))"
proof
  assume rwc: "Rwc c \<noteq> None"
  have mode: "mailboxWritable c \<noteq> ReadWrite \<longleftrightarrow> mailboxWritable c = ReadOnly"
    by (cases "mailboxWritable c") simp_all
  show "assertSelected seq writable c =
     (let tag = (if seq = [] then ''*'' else seq)
      in if state c \<noteq> StateAuthenticated \<and> state c \<noteq> StateSelected
         then Inr (False, emit (tag @ '' BAD not authenticated'' @ lineEnding) c)
         else if User c = None
         then Inl (Panic ''In authenticated state but no user is set'')
         else if state c \<noteq> StateSelected
         then Inr (False, emit (tag @ '' BAD not selected'' @ lineEnding) c)
         else if SelectedMailbox c = None
         then Inl (Panic ''In selected state but no selected mailbox is set'')
         else if writable = ReadWrite \<and> mailboxWritable c = ReadOnly
         then Inr (False, emit (tag @ '' NO Selected mailbox is READONLY'' @ lineEnding) c)
         else Inr (True, c))"
    unfolding assertSelected_def Let_def
    by (simp add: assertAuthenticated_cases [OF rwc] writeResponse_emit [OF rwc] lines_plain mode
        del: append_assoc)
qed

theorem assertSelected_order_witness:
  "assertSelected ''a3'' ReadWrite (SetReadOnly (selectedConn [])) =
     Inr (False, emit (''a3 NO Selected mailbox is READONLY'' @ lineEnding) (SetReadOnly (selectedConn []))) \<and>
   assertSelected ''a3'' ReadWrite (selectedConn []) = Inr (True, selectedConn []) \<and>
   assertSelected ''a3'' ReadOnly (exampleConn []) =
     Inr (False, emit (''a3 BAD not authenticated'' @ lineEnding) (exampleConn []))"
proof -
  have sel: "Rwc (selectedConn []) \<noteq> None" "Rwc (SetReadOnly (selectedConn [])) \<noteq> None"
    "state (selectedConn []) = StateSelected" "state (SetReadOnly (selectedConn [])) = StateSelected"
    "User (selectedConn []) = Some ()" "User (SetReadOnly (selectedConn [])) = Some ()"
    "SelectedMailbox (selectedConn []) = Some ()" "SelectedMailbox (SetReadOnly (selectedConn [])) = Some ()"
    "mailboxWritable (selectedConn []) = ReadWrite" "mailboxWritable (SetReadOnly (selectedConn [])) = ReadOnly"
    by (simp_all add: selectedConn_def exampleConn_def NewConn_def SetState_def SetReadOnly_def SetReadWrite_def)
  have new: "state (exampleConn []) = StateNew"
    by (simp add: exampleConn_def NewConn_def)
  show ?thesis
    using assertSelected_order [of "SetReadOnly (selectedConn [])" "''a3''" ReadWrite]
      assertSelected_order [of "selectedConn []" "''a3''" ReadWrite]
      assertSelected_order [of "exampleConn []" "''a3''" ReadOnly]
      exampleConn_Rwc [of "[]"] sel new
    by (simp add: Let_def)
qed

section \<open>Properties of the session loop\<close>

lemma Write_state: "Write p c = Inr c' \<Longrightarrow> state c' = state c \<and> pending c' = pending c \<and> Rwc c' \<noteq> None \<and> mailboxWritable c' = mailboxWritable c"
  by (auto simp: Write_def Let_def pending_def split: option.splits)

lemma writeResponse_state:
  "writeResponse seq command c = Inr c' \<Longrightarrow>
   state c' = state c \<and> pending c' = pending c \<and> Rwc c' \<noteq> None \<and> mailboxWritable c' = mailboxWritable c"
  unfolding writeResponse_def Let_def by (rule Write_state)

lemma sendWelcome_New:
  assumes "sendWelcome c = Inr (e, c1)" and "state c = StateNew"
  shows "state c1 = StateNotAuthenticated \<and> pending c1 = pending c"
proof -
  from assms obtain c0 where w: "writeResponse '''' ''OK IMAP4rev1 Service Ready'' c = Inr c0"
    and c1: "c1 = SetState StateNotAuthenticated c0"
    by (auto simp: sendWelcome_def split: sum.splits)
  from writeResponse_state [OF w] c1 show ?thesis
    by (simp add: SetState_def SetReadOnly_def pending_def)
qed

lemma ReadLine_ok:
  assumes "ReadLine c = Inr (req, True, c2)"
  shows "state c2 = state c \<and> Suc (pending c2) = pending c"
  using assms by (auto simp: ReadLine_def pending_def split: option.splits list.splits)

lemma ReadLine_eof:
  assumes "Rwc c \<noteq> None" and "pending c = 0"
  shows "\<exists>c2. ReadLine c = Inr ('''', False, c2) \<and> state c2 = state c \<and> mailboxWritable c2 = mailboxWritable c"
  using assms by (auto simp: ReadLine_def pending_def split: option.splits list.splits)

lemma handlersConsume_Cons: "handlersConsume (cmd # cmds) \<Longrightarrow> handlersConsume cmds"
  by (simp add: handlersConsume_def)

lemma handleRequest_pending:
  "handlersConsume cmds \<Longrightarrow> handleRequest cmds req c = Inr c' \<Longrightarrow> pending c' \<le> pending c"
proof (induction cmds)
  case Nil
  then show ?case using writeResponse_state [of "''''" _ c c'] by simp
next
  case (Cons cmd cmds)
  show ?case
  proof (cases "length (match cmd req) > 0")
    case True
    with Cons.prems show ?thesis
      by (auto simp: handlersConsume_def Let_def)
  next
    case False
    with Cons.prems Cons.IH [OF handlersConsume_Cons [OF Cons.prems(1)]] show ?thesis
      by (simp add: Let_def)
  qed
qed

lemma Start_loop_LoggedOut:
  "state c = StateLoggedOut \<Longrightarrow> Start_loop cmds c tr = Some (tr, Inr c)"
  by (subst Start_loop.simps) simp

lemma Start_loop_eof:
  assumes "state c \<noteq> StateLoggedOut" and "Rwc c \<noteq> None" and "pending c = 0"
  shows "\<exists>c'. Start_loop cmds c tr = Some (tr, Inr c') \<and> state c' = StateLoggedOut"
proof (cases "state c = StateNew")
  case False
  from ReadLine_eof [OF assms(2,3)] obtain c2 where "ReadLine c = Inr ('''', False, c2)" by blast
  with assms(1) False show ?thesis
    by (subst Start_loop.simps) simp
next
  case True
  obtain c0 where w: "writeResponse '''' ''OK IMAP4rev1 Service Ready'' c = Inr c0"
    using assms(2) by (auto simp: writeResponse_def Write_def Let_def)
  let ?c1 = "SetState StateNotAuthenticated c0"
  have sw: "sendWelcome c = Inr (None, ?c1)"
    using True w by (simp add: sendWelcome_def)
  have "Rwc ?c1 \<noteq> None" "pending ?c1 = 0"
    using writeResponse_state [OF w] assms(3)
    by (simp_all add: SetState_def SetReadOnly_def pending_def)
  from ReadLine_eof [OF this] obtain c2 where "ReadLine ?c1 = Inr ('''', False, c2)" by blast
  with True sw show ?thesis
    by (subst Start_loop.simps) simp
qed

lemma runOK_done:
  "state c = StateLoggedOut \<or> (\<forall>c'. res = Inr c' \<longrightarrow> state c' = StateLoggedOut) \<Longrightarrow>
   (\<forall>c'. res = Inr c' \<longrightarrow> state c' = StateLoggedOut) \<Longrightarrow> runOK c tr (tr, res)"
  unfolding runOK_def by (intro exI [of _ "[]"]) simp

lemma runOK_panic:
  "state c \<noteq> StateLoggedOut \<Longrightarrow> before d \<noteq> StateLoggedOut \<Longrightarrow> runOK c tr (tr @ [d], Inl f)"
  unfolding runOK_def by (intro exI [of _ "[d]"]) simp

lemma runOK_step:
  assumes "runOK c5 (tr @ [d]) y" and "after d = Some (state c5)"
    and "before d \<noteq> StateLoggedOut" and "state c \<noteq> StateLoggedOut"
  shows "runOK c tr y"
proof -
  from assms(1) obtain new where new: "fst y = (tr @ [d]) @ new"
    "state c5 = StateLoggedOut \<longrightarrow> new = []"
    "\<forall>d\<in>set new. before d \<noteq> StateLoggedOut"
    "\<forall>d\<in>set (butlast new). after d \<noteq> None \<and> after d \<noteq> Some StateLoggedOut"
    "\<forall>c'. snd y = Inr c' \<longrightarrow> state c' = StateLoggedOut"
    unfolding runOK_def by blast
  have 1: "fst y = tr @ (d # new)" using new(1) by simp
  have 2: "\<forall>e\<in>set (d # new). before e \<noteq> StateLoggedOut"
    using new(3) assms(3) by simp
  have 3: "\<forall>e\<in>set (butlast (d # new)). after e \<noteq> None \<and> after e \<noteq> Some StateLoggedOut"
    using new(2,4) assms(2) by auto
  from 1 2 3 new(5) assms(4) show ?thesis
    unfolding runOK_def by blast
qed

lemma Start_loop_runOK:
  assumes run: "Start_loop cmds0 c0 tr0 = Some y0"
  shows "runOK c0 tr0 y0 \<and> (handlersConsume cmds0 \<longrightarrow> length (fst y0) \<le> length tr0 + pending c0)"
proof (rule Start_loop.raw_induct [where P = "\<lambda>cmds c tr y. runOK c tr y \<and>
    (handlersConsume cmds \<longrightarrow> length (fst y) \<le> length tr + pending c)", OF _ run], goal_cases)
  case step: (1 loop cmds c tr y)
  note IH = step(1) and body = step(2)
  show ?case
  proof (cases "state c = StateLoggedOut")
    case True
    with body have "y = (tr, Inr c)" by simp
    with True show ?thesis by (simp add: runOK_done)
  next
    case live: False
    show ?thesis
    proof (cases "if state c = StateNew then sendWelcome c else Inr (None, c)")
      case (Inl f)
      with body live have "y = (tr, Inl f)" by simp
      then show ?thesis by (simp add: runOK_done)
    next
      case (Inr ec1)
      obtain e c1 where ec1: "ec1 = (e, c1)" by (cases ec1)
      have c1: "state c1 \<noteq> StateLoggedOut" "pending c1 = pending c"
        using Inr ec1 live sendWelcome_New [of c e c1]
        by (auto split: if_splits)
      show ?thesis
      proof (cases "ReadLine c1")
        case (Inl f)
        with body live Inr ec1 have "y = (tr, Inl f)" by simp
        then show ?thesis by (simp add: runOK_done)
      next
        case rl: (Inr r)
        obtain req ok c2 where r: "r = (req, ok, c2)" by (cases r)
        show ?thesis
        proof (cases ok)
          case False
          with body live Inr ec1 rl r
          have "y = (tr, Inr (c2\<lparr>state := StateLoggedOut\<rparr>))" by simp
          then show ?thesis by (simp add: runOK_done)
        next
          case True
          with rl r have c2: "state c2 = state c1" "Suc (pending c2) = pending c1"
            using ReadLine_ok [of c1 req c2] by simp_all
          let ?c3 = "c2\<lparr>Transcript := Transcript c2 @ [''C: '' @ req @ [LF]]\<rparr>"
          have c3: "pending ?c3 = pending c2" by (simp add: pending_def)
          show ?thesis
          proof (cases "handleRequest cmds req ?c3")
            case (Inl f)
            with body live Inr ec1 rl r True
            have "y = (tr @ [\<lparr>before = state ?c3, request = req, after = None\<rparr>], Inl f)"
              by (simp add: Let_def)
            with live c1 c2 show ?thesis by (simp add: runOK_panic)
          next
            case h: (Inr c4)
            let ?c5 = "case scanErr c4 of None \<Rightarrow> c4
              | Some e \<Rightarrow> c4\<lparr>Transcript := Transcript c4 @ [''Scan error: '' @ e @ [LF]]\<rparr>"
            let ?d = "\<lparr>before = state ?c3, request = req, after = Some (state c4)\<rparr>"
            from body live Inr ec1 rl r True h
            have "loop cmds ?c5 (tr @ [?d]) = Some y"
              by (simp add: Let_def)
            then have rec: "runOK ?c5 (tr @ [?d]) y \<and>
                (handlersConsume cmds \<longrightarrow> length (fst y) \<le> length (tr @ [?d]) + pending ?c5)"
              by (rule IH)
            have c5: "state ?c5 = state c4" "pending ?c5 = pending c4"
              by (simp_all add: pending_def split: option.splits)
            have "runOK c tr y"
              using rec c5 live c1 c2 by (intro runOK_step [of ?c5 tr ?d y c]) simp_all
            moreover have "length (fst y) \<le> length tr + pending c" if "handlersConsume cmds"
              using rec that handleRequest_pending [OF that h] c5 c3 c2 c1 by simp
            ultimately show ?thesis by blast
          qed
        qed
      qed
    qed
  qed
qed

lemma Start_loop_total:
  "handlersConsume cmds \<Longrightarrow> \<exists>y. Start_loop cmds c tr = Some y"
proof (induction "pending c" arbitrary: c tr rule: less_induct)
  case less
  show ?case
  proof (cases "state c = StateLoggedOut")
    case True
    then show ?thesis by (simp add: Start_loop_LoggedOut)
  next
    case live: False
    show ?thesis
    proof (cases "if state c = StateNew then sendWelcome c else Inr (None, c)")
      case (Inl f)
      with live show ?thesis by (subst Start_loop.simps) simp
    next
      case (Inr ec1)
      obtain e c1 where ec1: "ec1 = (e, c1)" by (cases ec1)
      have c1: "pending c1 = pending c"
        using Inr ec1 sendWelcome_New [of c e c1] by (auto split: if_splits)
      show ?thesis
      proof (cases "ReadLine c1")
        case (Inl f)
        with live Inr ec1 show ?thesis by (subst Start_loop.simps) simp
      next
        case rl: (Inr r)
        obtain req ok c2 where r: "r = (req, ok, c2)" by (cases r)
        show ?thesis
        proof (cases ok)
          case False
          with live Inr ec1 rl r show ?thesis by (subst Start_loop.simps) simp
        next
          case True
          with rl r have c2: "Suc (pending c2) = pending c1"
            using ReadLine_ok [of c1 req c2] by simp
          let ?c3 = "c2\<lparr>Transcript := Transcript c2 @ [''C: '' @ req @ [LF]]\<rparr>"
          have c3: "pending ?c3 = pending c2" by (simp add: pending_def)
          show ?thesis
          proof (cases "handleRequest cmds req ?c3")
            case (Inl f)
            with live Inr ec1 rl r True show ?thesis
              by (subst Start_loop.simps) (simp add: Let_def)
          next
            case h: (Inr c4)
            let ?c5 = "case scanErr c4 of None \<Rightarrow> c4
              | Some e \<Rightarrow> c4\<lparr>Transcript := Transcript c4 @ [''Scan error: '' @ e @ [LF]]\<rparr>"
            let ?d = "\<lparr>before = state ?c3, request = req, after = Some (state c4)\<rparr>"
            have "pending ?c5 = pending c4" by (simp add: pending_def split: option.splits)
            with handleRequest_pending [OF less.prems h] c3 c2 c1
            have "pending ?c5 < pending c" by simp
            from less.hyps [OF this less.prems, of "tr @ [?d]"]
            obtain y where "Start_loop cmds ?c5 (tr @ [?d]) = Some y" by blast
            with live Inr ec1 rl r True h show ?thesis
              by (subst Start_loop.simps) (simp add: Let_def)
          qed
        qed
      qed
    qed
  qed
qed

text \<open>
  Claim C8. The loop of \<open>Start\<close> dispatches nothing once the state is LoggedOut: started
  in LoggedOut it returns at once; when the transport is at its end it sets LoggedOut and
  returns without a dispatch; in every run no dispatch is made in state LoggedOut, a
  dispatch that leaves the state LoggedOut (or panics) is the last one, and a connection
  that comes back is logged out; with handlers that put nothing back on the transport
  there are at most as many dispatches as lines, and the run returns.
\<close>

theorem Start_dispatch:
  "(state c = StateLoggedOut \<and> Rwc c \<noteq> None \<longrightarrow>
      Start cmds c = Some ([], Inr (None, c\<lparr>scanErr := None\<rparr>))) \<and>
   (state c \<noteq> StateLoggedOut \<and> Rwc c \<noteq> None \<and> pending c = 0 \<longrightarrow>
      (\<exists>c'. Start cmds c = Some ([], Inr (None, c')) \<and> state c' = StateLoggedOut)) \<and>
   (\<forall>tr res. Start cmds c = Some (tr, res) \<longrightarrow>
      (\<forall>d\<in>set tr. before d \<noteq> StateLoggedOut) \<and>
      (\<forall>d\<in>set (butlast tr). after d \<noteq> None \<and> after d \<noteq> Some StateLoggedOut) \<and>
      (\<forall>e c'. res = Inr (e, c') \<and> Rwc c \<noteq> None \<longrightarrow> state c' = StateLoggedOut) \<and>
      (handlersConsume cmds \<longrightarrow> length tr \<le> pending c)) \<and>
   (handlersConsume cmds \<longrightarrow> (\<exists>r. Start cmds c = Some r))"
proof (intro conjI allI impI)
  assume "state c = StateLoggedOut \<and> Rwc c \<noteq> None"
  then show "Start cmds c = Some ([], Inr (None, c\<lparr>scanErr := None\<rparr>))"
    by (simp add: Start_def Start_loop_LoggedOut)
next
  assume a: "state c \<noteq> StateLoggedOut \<and> Rwc c \<noteq> None \<and> pending c = 0"
  let ?c = "c\<lparr>scanErr := None\<rparr>"
  from a have "state ?c \<noteq> StateLoggedOut" "Rwc ?c \<noteq> None" "pending ?c = 0"
    by (simp_all add: pending_def)
  from Start_loop_eof [OF this, of cmds "[]"] obtain c'
    where "Start_loop cmds ?c [] = Some ([], Inr c')" "state c' = StateLoggedOut" by blast
  with a show "\<exists>c'. Start cmds c = Some ([], Inr (None, c')) \<and> state c' = StateLoggedOut"
    by (simp add: Start_def)
next
  assume "handlersConsume cmds"
  from Start_loop_total [OF this, of "c\<lparr>scanErr := None\<rparr>" "[]"]
  show "\<exists>r. Start cmds c = Some r"
    by (auto simp: Start_def split: sum.splits)
next
  fix tr res
  assume st: "Start cmds c = Some (tr, res)"
  have main: "(\<forall>d\<in>set tr. before d \<noteq> StateLoggedOut) \<and>
      (\<forall>d\<in>set (butlast tr). after d \<noteq> None \<and> after d \<noteq> Some StateLoggedOut) \<and>
      (\<forall>e c'. res = Inr (e, c') \<and> Rwc c \<noteq> None \<longrightarrow> state c' = StateLoggedOut) \<and>
      (handlersConsume cmds \<longrightarrow> length tr \<le> pending c)"
  proof (cases "Rwc c = None")
    case True
    with st show ?thesis by (simp add: Start_def)
  next
    case False
    let ?c = "c\<lparr>scanErr := None\<rparr>"
    from st False obtain res0 where loop: "Start_loop cmds ?c [] = Some (tr, res0)"
      and res: "res = (case res0 of Inl f \<Rightarrow> Inl f | Inr c' \<Rightarrow> Inr (None, c'))"
      by (auto simp: Start_def split: option.splits sum.splits)
    from Start_loop_runOK [OF loop]
    have ok: "runOK ?c [] (tr, res0)"
      and bound: "handlersConsume cmds \<longrightarrow> length tr \<le> pending ?c"
      by simp_all
    have "pending ?c = pending c" by (simp add: pending_def)
    with ok bound res show ?thesis
      unfolding runOK_def by (auto split: sum.splits)
  qed
  from main show "\<forall>d\<in>set tr. before d \<noteq> StateLoggedOut" by blast
  from main show "\<forall>d\<in>set (butlast tr). after d \<noteq> None \<and> after d \<noteq> Some StateLoggedOut" by blast
  from main show "\<And>e c'. res = Inr (e, c') \<and> Rwc c \<noteq> None \<Longrightarrow> state c' = StateLoggedOut" by blast
  from main show "handlersConsume cmds \<Longrightarrow> length tr \<le> pending c" by blast
qed

lemma cmd_consume: "handlersConsume [cmdNoop, cmdLogout]"
proof -
  have "pending c' \<le> pending c" if "handler cmdNoop m c = Inr c'" for m c c'
    using that writeResponse_state [of "m ! 1" "''OK NOOP completed''" c c']
    by (simp add: cmdNoop_def)
  moreover have "pending c' \<le> pending c" if "handler cmdLogout m c = Inr c'" for m c c'
  proof -
    from that obtain c1 c2 where 1: "writeResponse '''' ''BYE'' c = Inr c1"
      and 2: "writeResponse (m ! 1) ''OK LOGOUT completed'' c1 = Inr c2"
      and 3: "c' = SetState StateLoggedOut c2"
      by (auto simp: cmdLogout_def split: sum.splits)
    from writeResponse_state [OF 1] writeResponse_state [OF 2] 3 show ?thesis
      by (simp add: SetState_def SetReadOnly_def pending_def)
  qed
  ultimately show ?thesis
    unfolding handlersConsume_def by auto
qed

lemma example_run:
  "\<exists>c'. Start [cmdNoop, cmdLogout] (exampleConn exampleLines) =
           Some (exampleTrace, Inr (None, c')) \<and>
        state c' = StateLoggedOut \<and>
        sent c' =
          [''* OK IMAP4rev1 Service Ready'' @ lineEnding,
           ''a1 OK NOOP completed'' @ lineEnding,
           ''* BYE'' @ lineEnding,
           ''a2 OK LOGOUT completed'' @ lineEnding]"
  apply (simp add: Start_def exampleConn_def NewConn_def exampleLines_def)
  apply (subst Start_loop.simps)
  apply (simp add: sendWelcome_def writeResponse_def Write_def Let_def HasSuffix_def lineEnding_def
      CR_def LF_def SetState_def SetReadOnly_def ReadLine_def cmdNoop_def cmdLogout_def
      matchWord_def lineTag_def)
  apply (subst Start_loop.simps)
  apply (simp add: sendWelcome_def writeResponse_def Write_def Let_def HasSuffix_def lineEnding_def
      CR_def LF_def SetState_def SetReadOnly_def ReadLine_def cmdNoop_def cmdLogout_def
      matchWord_def lineTag_def)
  apply (subst Start_loop.simps)
  apply (simp add: exampleTrace_def sent_def LF_def)
  done

lemma example_Start:
  "\<exists>c'. Start [cmdNoop, cmdLogout] (exampleConn exampleLines) = Some (exampleTrace, Inr (None, c')) \<and>
        state c' = StateLoggedOut"
  using example_run by blast

theorem Start_dispatch_witness:
  "handlersConsume [cmdNoop, cmdLogout] \<and>
   (\<exists>r. Start [cmdNoop, cmdLogout] (exampleConn exampleLines) = Some r) \<and>
   (\<exists>c'. Start [cmdNoop, cmdLogout] (exampleConn exampleLines) =
            Some (exampleTrace, Inr (None, c')) \<and> state c' = StateLoggedOut) \<and>
   list_all (\<lambda>d. before d \<noteq> StateLoggedOut) exampleTrace \<and>
   list_all (\<lambda>d. after d \<noteq> None \<and> after d \<noteq> Some StateLoggedOut) (butlast exampleTrace) \<and>
   length exampleTrace \<le> pending (exampleConn exampleLines) \<and>
   (\<exists>c'. Start [cmdNoop, cmdLogout] (exampleConn []) = Some ([], Inr (None, c')) \<and>
         state c' = StateLoggedOut) \<and>
   Start [cmdNoop, cmdLogout] (SetState StateLoggedOut (exampleConn exampleLines)) =
     Some ([], Inr (None, SetState StateLoggedOut (exampleConn exampleLines)))"
proof -
  note main = Start_dispatch [of "exampleConn exampleLines" "[cmdNoop, cmdLogout]"]
  from example_Start obtain c' where
    run: "Start [cmdNoop, cmdLogout] (exampleConn exampleLines) = Some (exampleTrace, Inr (None, c'))"
    and out: "state c' = StateLoggedOut" by blast
  have total: "\<exists>r. Start [cmdNoop, cmdLogout] (exampleConn exampleLines) = Some r"
    using main cmd_consume by blast
  have safe: "(\<forall>d\<in>set exampleTrace. before d \<noteq> StateLoggedOut) \<and>
      (\<forall>d\<in>set (butlast exampleTrace). after d \<noteq> None \<and> after d \<noteq> Some StateLoggedOut) \<and>
      length exampleTrace \<le> pending (exampleConn exampleLines)"
    using main run cmd_consume by blast
  have eof: "\<exists>c'. Start [cmdNoop, cmdLogout] (exampleConn []) = Some ([], Inr (None, c')) \<and>
         state c' = StateLoggedOut"
    using Start_dispatch [of "exampleConn []" "[cmdNoop, cmdLogout]"]
    by (simp add: exampleConn_def NewConn_def pending_def)
  have "Start [cmdNoop, cmdLogout] (SetState StateLoggedOut (exampleConn exampleLines)) =
     Some ([], Inr (None, (SetState StateLoggedOut (exampleConn exampleLines))\<lparr>scanErr := None\<rparr>))"
    using Start_dispatch [of "SetState StateLoggedOut (exampleConn exampleLines)" "[cmdNoop, cmdLogout]"]
    by (simp add: exampleConn_def NewConn_def SetState_def SetReadOnly_def)
  then have idle: "Start [cmdNoop, cmdLogout] (SetState StateLoggedOut (exampleConn exampleLines)) =
     Some ([], Inr (None, SetState StateLoggedOut (exampleConn exampleLines)))"
    by (simp add: exampleConn_def NewConn_def SetState_def SetReadOnly_def)
  from cmd_consume total run out safe eof idle show ?thesis
    by (simp add: list_all_iff)
qed

section \<open>The write mode across state changes\<close>

text \<open>
  \<open>SetState\<close> leaves the mode ReadOnly whatever the target state, and calls of the
  three setters that enable write access only in state Selected keep invariant 3.
\<close>

lemma SetState_ReadOnly: "mailboxWritable (SetState st c) = ReadOnly \<and> state (SetState st c) = st"
  by (simp add: SetState_def SetReadOnly_def)

lemma call_preserves:
  "writeImpliesSelected c \<Longrightarrow> x \<noteq> CallSetReadWrite \<or> state c = StateSelected \<Longrightarrow>
   writeImpliesSelected (call x c)"
  by (cases x) (auto simp: writeImpliesSelected_def SetState_def SetReadOnly_def SetReadWrite_def)

lemma calls_preserve:
  "writeImpliesSelected c \<Longrightarrow> writeOnlyWhileSelected xs c \<Longrightarrow> writeImpliesSelected (calls xs c)"
  by (induction xs arbitrary: c) (auto simp: call_preserves)

lemma NewConn_writeImpliesSelected: "writeImpliesSelected (NewConn netConn transcript)"
  by (simp add: writeImpliesSelected_def NewConn_def)

lemma Start_loop_eof_exact:
  assumes "state c \<noteq> StateLoggedOut" and "state c \<noteq> StateNew"
    and "Rwc c = Some r" and "incoming r = []"
  shows "Start_loop cmds c tr = Some (tr, Inr (c\<lparr>scanErr := readErr r, state := StateLoggedOut\<rparr>))"
  using assms by (subst Start_loop.simps) (simp add: ReadLine_def)

text \<open>
  Claim C7, at the end of the stream. The loop of \<open>Start\<close> assigns the state LoggedOut
  itself, not through \<open>SetState\<close>: a connection that is Selected with write access
  comes out of \<open>Start\<close> logged out and still ReadWrite, and invariant 3, which held
  before, no longer holds.
\<close>

theorem Start_EOF_keeps_ReadWrite:
  "writeImpliesSelected (selectedConn []) \<and>
   Start cmds (selectedConn []) =
     Some ([], Inr (None, (selectedConn [])\<lparr>state := StateLoggedOut\<rparr>)) \<and>
   mailboxWritable ((selectedConn [])\<lparr>state := StateLoggedOut\<rparr>) = ReadWrite \<and>
   \<not> writeImpliesSelected ((selectedConn [])\<lparr>state := StateLoggedOut\<rparr>)"
proof -
  let ?r = "\<lparr>incoming = [], readErr = None, written = []\<rparr>"
  let ?c = "(selectedConn [])\<lparr>scanErr := None\<rparr>"
  have c: "state ?c = StateSelected" "Rwc ?c = Some ?r" "mailboxWritable ?c = ReadWrite"
    "?c = selectedConn []"
    by (simp_all add: selectedConn_def exampleConn_def NewConn_def SetState_def SetReadOnly_def
        SetReadWrite_def)
  have "Start_loop cmds ?c [] = Some ([], Inr (?c\<lparr>scanErr := readErr ?r, state := StateLoggedOut\<rparr>))"
    by (rule Start_loop_eof_exact) (simp_all add: c(1,2))
  then have "Start cmds (selectedConn []) = Some ([], Inr (None, (selectedConn [])\<lparr>state := StateLoggedOut\<rparr>))"
    using c by (simp add: Start_def)
  with c show ?thesis
    by (simp add: writeImpliesSelected_def)
qed

section \<open>Properties of the server\<close>

text \<open>
  Claim C10. \<open>Listen\<close> on a server that holds a listener returns an error and changes
  neither the server nor the network; \<open>Close\<close> on a server without listener returns an
  error; \<open>Close\<close> on a server with a listener clears the field exactly when closing the
  listener succeeds, and keeps the listener otherwise.
\<close>

theorem Server_Listen_Close_guards:
  "(listener s \<noteq> None \<longrightarrow>
      Server_Listen env s w = (Some (errorsNew ''Listener already exists''), s, w, [])) \<and>
   (listener s = None \<longrightarrow>
      (\<exists>s'. Server_Close env s w = (Some (errorsNew ''Server not started''), s', w) \<and>
            listener s' = None)) \<and>
   (\<forall>ln err s' w'. listener s = Some ln \<and> Server_Close env s w = (err, s', w') \<longrightarrow>
      (err = None \<longleftrightarrow> fst (listener_Close env ln w) = None) \<and>
      (listener s' = None \<longleftrightarrow> err = None) \<and>
      (err \<noteq> None \<longrightarrow> listener s' = Some ln) \<and>
      w' = snd (listener_Close env ln w))"
proof (intro conjI allI impI)
  assume "listener s \<noteq> None"
  then show "Server_Listen env s w = (Some (errorsNew ''Listener already exists''), s, w, [])"
    by (simp add: Server_Listen_def)
next
  assume "listener s = None"
  then show "\<exists>s'. Server_Close env s w = (Some (errorsNew ''Server not started''), s', w) \<and>
            listener s' = None"
    by (simp add: Server_Close_def Let_def)
next
  fix ln err s' w'
  assume a: "listener s = Some ln \<and> Server_Close env s w = (err, s', w')"
  obtain e w1 where c: "listener_Close env ln w = (e, w1)" by (cases "listener_Close env ln w")
  from a c have r: "err = map_option errorsNew e" "w' = w1"
    "listener s' = (if e = None then None else Some ln)"
    by (auto simp: Server_Close_def Let_def split: option.splits)
  from r c show "err = None \<longleftrightarrow> fst (listener_Close env ln w) = None" by simp
  from r c show "listener s' = None \<longleftrightarrow> err = None" by simp
  from r c show "err \<noteq> None \<Longrightarrow> listener s' = Some ln" by simp
  from r c show "w' = snd (listener_Close env ln w)" by simp
qed

lemma listening_eq:
  "listening = (\<lparr>Addr = '':143'', listener = Some '':143'',
                 ServerTranscript = [''Listening on :143'' @ [LF]], mailstore = ()\<rparr>, ['':143''])"
  by (simp add: listening_def Server_Listen_def NewServer_def exampleNet_def Let_def)

theorem Server_Listen_Close_guards_witness:
  "listener (fst listening) = Some '':143'' \<and>
   Server_Listen exampleNet (fst listening) (snd listening) =
     (Some (errorsNew ''Listener already exists''), fst listening, snd listening, []) \<and>
   (\<exists>s'. Server_Close exampleNet (NewServer ()) [] = (Some (errorsNew ''Server not started''), s', []) \<and>
         listener s' = None) \<and>
   (\<exists>s'. Server_Close exampleNet (fst listening) (snd listening) = (None, s', []) \<and>
         listener s' = None) \<and>
   (\<exists>s'. Server_Close exampleNet (fst listening) [] =
           (Some (errorsNew ''use of closed network connection''), s', []) \<and>
         listener s' = Some '':143'')"
proof -
  have l: "listener (fst listening) = Some '':143''"
    by (simp add: listening_eq)
  have "Server_Listen exampleNet (fst listening) (snd listening) =
     (Some (errorsNew ''Listener already exists''), fst listening, snd listening, [])"
    using Server_Listen_Close_guards [of "fst listening" exampleNet "snd listening"] l by simp
  moreover have "\<exists>s'. Server_Close exampleNet (NewServer ()) [] =
      (Some (errorsNew ''Server not started''), s', []) \<and> listener s' = None"
    using Server_Listen_Close_guards [of "NewServer ()" exampleNet "[]"]
    by (simp add: NewServer_def)
  moreover have "\<exists>s'. Server_Close exampleNet (fst listening) (snd listening) = (None, s', []) \<and>
         listener s' = None"
  proof -
    obtain err s' w' where c: "Server_Close exampleNet (fst listening) (snd listening) = (err, s', w')"
      by (cases "Server_Close exampleNet (fst listening) (snd listening)")
    from Server_Listen_Close_guards [of "fst listening" exampleNet "snd listening"] l c
    have "(err = None \<longleftrightarrow> fst (listener_Close exampleNet '':143'' (snd listening)) = None) \<and>
      (listener s' = None \<longleftrightarrow> err = None) \<and> w' = snd (listener_Close exampleNet '':143'' (snd listening))"
      by blast
    with c show ?thesis by (simp add: listening_eq exampleNet_def)
  qed
  moreover have "\<exists>s'. Server_Close exampleNet (fst listening) [] =
           (Some (errorsNew ''use of closed network connection''), s', []) \<and>
         listener s' = Some '':143''"
    by (simp add: Server_Close_def Let_def listening_eq exampleNet_def)
  ultimately show ?thesis using l by blast
qed

end
